theory Spec2Isabelle
  imports Main "HOL-Library.Sublist"
begin

section \<open>Data model (src/src/App.tsx, lines 10-73)\<close>

text \<open>
  The records follow the TypeScript types of the source. Isabelle's record fields are
  global constants, so a field name that occurs in several types (\<open>success\<close>,
  \<open>name\<close>, \<open>id\<close>, \<open>users\<close>, \<open>token\<close>) carries a short prefix of its type.
  A JavaScript \<open>number\<close> is an \<open>int\<close>; \<open>string | null\<close> is a \<open>string option\<close>.
\<close>

definition TOKEN_ERROR_MESSAGE :: string where
  "TOKEN_ERROR_MESSAGE =
     ''Cannot authorize to create user please try again and verify your internet connection''"

record User =
  u_id :: string
  u_name :: string
  u_email :: string
  u_phone :: string
  u_photo :: string
  u_position :: string
  u_position_id :: int
  u_registration_timestamp :: int

text \<open>\<open>CreateUser = Pick<User, 'name' | 'email' | 'phone' | 'photo' | 'position_id'>\<close>:
  the values Formik hands to the submit handler.\<close>

record CreateUser =
  cu_name :: string
  cu_email :: string
  cu_phone :: string
  cu_photo :: string
  cu_position_id :: int

record Links =
  next_url :: "string option"
  prev_url :: "string option"

record GetUserResponse =
  gu_success :: bool
  gu_page :: "int option"
  gu_offset :: "int option"
  gu_total_pages :: int
  gu_total_users :: int
  gu_count :: int
  gu_links :: Links
  gu_users :: "User list"

record ResponseCreatedUser =
  rc_success :: bool
  rc_message :: string
  rc_user_id :: string

record ResponseToken =
  rt_success :: bool
  rt_token :: string

record Position =
  p_id :: int
  p_name :: string

record PositionOption =
  po_value :: int
  po_label :: string

record GetPositionsResponse =
  gp_success :: bool
  gp_positions :: "Position list"

text \<open>The file chosen in the form's file input (\<open>fileRef.current.files[0]\<close>), by name;
  the input is mounted whenever the form is, so \<open>fileRef.current\<close> is not null where
  it is read, and an input with no file chosen gives \<open>undefined\<close>, here \<open>None\<close>.\<close>

type_synonym photo_file = string

subsection \<open>Failed requests\<close>

text \<open>
  The body of an error response, as the handler of \<open>reqCreateUser\<close> reads it
  (\<open>ResponseValidationError\<close>, and \<open>{success: false}\<close> for an unauthorized
  request): \<open>fails\<close> is an object, iterated with \<open>Object.entries\<close>, hence an
  association list in the order of its keys; \<open>None\<close> is an absent \<open>fails\<close>
  (any object, also the empty one, is truthy). An absent \<open>success\<close> is falsy and is
  read as \<open>False\<close>.
\<close>

record ErrorData =
  e_success :: bool
  e_fails :: "(string \<times> string list) list option"

text \<open>
  What a rejected axios promise carries: \<open>NoResponse\<close> is an error whose
  \<open>response\<close> is undefined (the request never got an answer); \<open>HttpError status data\<close>
  is an answer with a status outside 2xx, \<open>data\<close> being \<open>None\<close> when the body of the
  answer is null.
\<close>

datatype axios_error = NoResponse | HttpError int "ErrorData option"

subsection \<open>Requests of the create-user flow and the service that answers them\<close>

text \<open>The multipart form of line 181-185: \<open>{...values, position_id: selectedPosition?.value,
  photo: fileRef.current.files[0]}\<close>. The two later keys override those of \<open>values\<close>.\<close>

record Payload =
  pl_name :: string
  pl_email :: string
  pl_phone :: string
  pl_position_id :: "int option"
  pl_photo :: "photo_file option"

text \<open>One request of the flow together with the answer it got, in the order sent:
  \<open>GET /token\<close>; \<open>POST /users\<close> with its form and its \<open>Token\<close> header;
  \<open>GET /users/:id\<close>.\<close>

datatype exchange =
    TokenX "axios_error + ResponseToken"
  | PostX Payload string "axios_error + ResponseCreatedUser"
  | UserX string "axios_error + User"

text \<open>
  The remote service is not part of the repository. It is a parameter: three functions
  that answer a request from everything exchanged so far, so that any deterministic
  service, also one that changes its answers over time, is an instance.
\<close>

record server =
  token_reply :: "exchange list \<Rightarrow> axios_error + ResponseToken"
  post_reply :: "exchange list \<Rightarrow> Payload \<Rightarrow> string \<Rightarrow> axios_error + ResponseCreatedUser"
  user_reply :: "exchange list \<Rightarrow> string \<Rightarrow> axios_error + User"

section \<open>The component's state (lines 76-86)\<close>

text \<open>
  The \<open>useState\<close> cells and the two refs of \<open>App\<close>, and what the component shows or
  sends: the alerts raised so far, Formik's field errors, the exchanges with the
  service, and the page request and positions request in flight (the axios promise of
  each effect that has not settled yet; page requests are numbered as they are issued).
  \<open>console.log\<close> output is not modelled. \<open>fileRef\<close> is the file of the input
  the ref points to.
\<close>

record app_state =
  currPage :: string
  nextPage :: "string option"
  users :: "User list"
  seen :: bool
  token :: "string option"
  positions :: "Position list"
  selectedPosition :: "PositionOption option"
  tokenRef :: "string option"
  fileRef :: "photo_file option"
  fieldErrors :: "string \<rightharpoonup> string"
  alerts :: "string list"
  xlog :: "exchange list"
  pageReq :: "nat option"
  nextReqId :: nat
  posReq :: bool
  mounted :: bool

text \<open>
  An event handler is a closure of the render that created it: it reads \<open>seen\<close> and
  \<open>selectedPosition\<close> as they were at that render, not the current cells
  (\<open>tokenRef\<close> and \<open>fileRef\<close> are refs and are read live).
\<close>

record closure =
  seen_c :: bool
  selectedPosition_c :: "PositionOption option"

definition closure_of :: "app_state \<Rightarrow> closure" where
  "closure_of s = \<lparr>seen_c = seen s, selectedPosition_c = selectedPosition s\<rparr>"

text \<open>JavaScript truthiness of a \<open>string | null\<close>: \<open>null\<close> and the empty string are falsy.\<close>

definition falsy :: "string option \<Rightarrow> bool" where
  "falsy t = (case t of None \<Rightarrow> True | Some v \<Rightarrow> v = [])"

definition alert :: "string \<Rightarrow> app_state \<Rightarrow> app_state" where
  "alert m s = s\<lparr>alerts := alerts s @ [m]\<rparr>"

text \<open>Lines 135-138.\<close>

definition setToken :: "string option \<Rightarrow> app_state \<Rightarrow> app_state" where
  "setToken newToken s = s\<lparr>tokenRef := newToken, token := newToken\<rparr>"

text \<open>Lines 140-142: \<open>setSeen(!seen)\<close> with the \<open>seen\<close> of the closure.\<close>

definition togglePopCreateUser :: "closure \<Rightarrow> app_state \<Rightarrow> app_state" where
  "togglePopCreateUser c s = s\<lparr>seen := \<not> seen_c c\<rparr>"

text \<open>Lines 144-146: the request is sent and answered; the exchange is recorded.\<close>

definition getToken :: "server \<Rightarrow> app_state \<Rightarrow> (axios_error + ResponseToken) \<times> app_state" where
  "getToken srv s =
     (let r = token_reply srv (xlog s) in (r, s\<lparr>xlog := xlog s @ [TokenX r]\<rparr>))"

text \<open>Lines 148-158.\<close>

definition onClickUserCreate :: "server \<Rightarrow> closure \<Rightarrow> app_state \<Rightarrow> app_state" where
  "onClickUserCreate srv c s =
     (case getToken srv s of
        (Inr res, s1) \<Rightarrow> togglePopCreateUser c (setToken (Some (rt_token res)) s1)
      | (Inl err, s1) \<Rightarrow> alert TOKEN_ERROR_MESSAGE s1)"

section \<open>The create-user flow: \<open>reqCreateUser\<close> (lines 160-220)\<close>

text \<open>
  Lines 164-176. \<open>Inr (userToken, s')\<close>: the token to send; \<open>Inl s'\<close>: the token
  request failed and the function has returned.
\<close>

definition acquireToken :: "server \<Rightarrow> closure \<Rightarrow> app_state \<Rightarrow> app_state + string \<times> app_state" where
  "acquireToken srv c s =
     (if \<not> falsy (tokenRef s) then Inr (the (tokenRef s), s)
      else (case getToken srv s of
              (Inr tokenRes, s1) \<Rightarrow> Inr (rt_token tokenRes, setToken (Some (rt_token tokenRes)) s1)
            | (Inl err, s1) \<Rightarrow> Inl (togglePopCreateUser c (alert TOKEN_ERROR_MESSAGE s1))))"

definition mkPayload :: "closure \<Rightarrow> CreateUser \<Rightarrow> app_state \<Rightarrow> Payload" where
  "mkPayload c values s =
     \<lparr>pl_name = cu_name values, pl_email = cu_email values, pl_phone = cu_phone values,
      pl_position_id = map_option po_value (selectedPosition_c c),
      pl_photo = fileRef s\<rparr>"

text \<open>
  Lines 178-199, the \<open>try\<close> block: \<open>None\<close> when it ran to its end, \<open>Some error\<close>
  when one of its two requests was rejected.
\<close>

definition tryBlock ::
  "server \<Rightarrow> closure \<Rightarrow> CreateUser \<Rightarrow> string \<Rightarrow> app_state \<Rightarrow> axios_error option \<times> app_state" where
  "tryBlock srv c values userToken s =
     (let p = mkPayload c values s;
          r = post_reply srv (xlog s) p userToken;
          s1 = s\<lparr>xlog := xlog s @ [PostX p userToken r]\<rparr>
      in case r of
           Inl error \<Rightarrow> (Some error, s1)
         | Inr res \<Rightarrow>
             (let userId = rc_user_id res;
                  r2 = user_reply srv (xlog s1) userId;
                  s2 = s1\<lparr>xlog := xlog s1 @ [UserX userId r2]\<rparr>
              in case r2 of
                   Inl error \<Rightarrow> (Some error, s2)
                 | Inr user \<Rightarrow>
                     (None,
                      alert ''Successfully created user''
                        (togglePopCreateUser c (s2\<lparr>users := user # users s2\<rparr>)))))"

text \<open>\<open>value.join('. ')\<close> of line 209.\<close>

fun join :: "string \<Rightarrow> string list \<Rightarrow> string" where
  "join sep [] = []"
| "join sep [x] = x"
| "join sep (x # y # ys) = x @ sep @ join sep (y # ys)"

text \<open>\<open>formikHelper.setFieldError(key, message)\<close>.\<close>

definition setFieldError :: "string \<Rightarrow> string \<Rightarrow> app_state \<Rightarrow> app_state" where
  "setFieldError key msg s = s\<lparr>fieldErrors := (fieldErrors s)(key \<mapsto> msg)\<rparr>"

text \<open>The loop of lines 206-210 over \<open>Object.entries(fails)\<close>.\<close>

fun setFieldErrors :: "(string \<times> string list) list \<Rightarrow> app_state \<Rightarrow> app_state" where
  "setFieldErrors [] s = s"
| "setFieldErrors ((key, val) # rest) s = setFieldErrors rest (setFieldError key (join ''. '' val) s)"

text \<open>
  Lines 200-216, the \<open>catch\<close> block. \<open>Throws\<close>: destructuring \<open>error.response\<close>
  (line 201) or \<open>error.response.data\<close> (line 202) raised a TypeError, the one being
  undefined or the other null; \<open>Retry s'\<close>: line 215 is reached, the function calls
  itself; \<open>Handled s'\<close>: the block ran to its end.
\<close>

datatype caught = Throws | Retry app_state | Handled app_state

definition catchBlock :: "axios_error \<Rightarrow> app_state \<Rightarrow> caught" where
  "catchBlock error s =
     (case error of
        NoResponse \<Rightarrow> Throws
      | HttpError status None \<Rightarrow> Throws
      | HttpError status (Some d) \<Rightarrow>
          (let s1 = (if status = 422 \<and> \<not> e_success d
                     then (case e_fails d of Some fails \<Rightarrow> setFieldErrors fails s | None \<Rightarrow> s)
                     else s)
           in if status = 401 \<and> \<not> e_success d
              then Retry (setToken None (alert ''Your token has expired and will be updated now.'' s1))
              else Handled s1))"

text \<open>How the promise of \<open>reqCreateUser\<close> settles: fulfilled, or rejected by the
  TypeError raised in its own \<open>catch\<close> block.\<close>

datatype outcome = Resolved | Rejected

text \<open>
  \<open>reqCreateUser\<close> calls itself at line 215 with nothing that bounds the number of
  calls, so it need not return. The first argument bounds the number of calls that are
  run: the result is the state reached, with \<open>Some\<close> outcome when the promise has
  settled and \<open>None\<close> when the run needs more calls than that. The \<open>finally\<close> block
  (line 218) runs on every way out of \<open>try\<close>/\<open>catch\<close>. At line 215 it runs once the
  inner call has reached its first \<open>await\<close>, that is after the inner call has read
  \<open>tokenRef\<close> (which line 214 has just set to null) and sent its token request;
  \<open>setToken(null)\<close> touches neither, so the model applies it before the inner call.
  The outer promise settles as the inner one does.
\<close>

fun reqCreateUser ::
  "nat \<Rightarrow> server \<Rightarrow> closure \<Rightarrow> CreateUser \<Rightarrow> app_state \<Rightarrow> outcome option \<times> app_state" where
  "reqCreateUser 0 srv c values s = (None, s)"
| "reqCreateUser (Suc n) srv c values s =
     (case acquireToken srv c s of
        Inl s1 \<Rightarrow> (Some Resolved, s1)
      | Inr (userToken, s1) \<Rightarrow>
          (case tryBlock srv c values userToken s1 of
             (None, s2) \<Rightarrow> (Some Resolved, setToken None s2)
           | (Some error, s2) \<Rightarrow>
               (case catchBlock error s2 of
                  Throws \<Rightarrow> (Some Rejected, setToken None s2)
                | Retry s3 \<Rightarrow> reqCreateUser n srv c values (setToken None s3)
                | Handled s3 \<Rightarrow> (Some Resolved, setToken None s3))))"

section \<open>The listing flow and the session\<close>

text \<open>
  How the promise of a request with a cancel token settles: with the answer, with the
  rejection that \<open>source.cancel()\<close> causes (\<open>axios.isCancel\<close> holds of it), or with
  another error.
\<close>

datatype 'a settlement = Fulfils 'a | RejectsCancel | RejectsError

text \<open>Lines 94-97.\<close>

definition pageThen :: "GetUserResponse \<Rightarrow> app_state \<Rightarrow> app_state" where
  "pageThen res s = s\<lparr>users := users s @ gu_users res, nextPage := next_url (gu_links res)\<rparr>"

text \<open>Lines 98-105, and the same code at lines 121-128; the argument is \<open>axios.isCancel(err)\<close>.\<close>

definition requestCatch :: "bool \<Rightarrow> app_state \<Rightarrow> app_state" where
  "requestCatch isCancel s = (if isCancel then s else alert ''Check your internet connection'' s)"

text \<open>Lines 92-105: \<open>axios.get(currPage).then(...).catch(...)\<close>.\<close>

definition pageSettled :: "GetUserResponse settlement \<Rightarrow> app_state \<Rightarrow> app_state" where
  "pageSettled r s =
     (case r of
        Fulfils res \<Rightarrow> pageThen res s
      | RejectsCancel \<Rightarrow> requestCatch True s
      | RejectsError \<Rightarrow> requestCatch False s)"

text \<open>Lines 116-128.\<close>

definition positionsSettled :: "GetPositionsResponse settlement \<Rightarrow> app_state \<Rightarrow> app_state" where
  "positionsSettled r s =
     (case r of
        Fulfils res \<Rightarrow> s\<lparr>positions := gp_positions res\<rparr>
      | RejectsCancel \<Rightarrow> requestCatch True s
      | RejectsError \<Rightarrow> requestCatch False s)"

text \<open>The body of the first effect (lines 89-93) issues the request for \<open>currPage\<close>.\<close>

definition startPageFetch :: "app_state \<Rightarrow> app_state" where
  "startPageFetch s = s\<lparr>pageReq := Some (nextReqId s), nextReqId := Suc (nextReqId s)\<rparr>"

text \<open>
  Modelled from the spec: what \<open>source.cancel()\<close> in the cleanup of the first effect
  (lines 107-109) does to the page request. The source only calls it; axios and its
  cancel token, which are not under src/, decide the rest. Spec, sections 4.1 and 7: a
  request in flight is cancelled, and the cancellation is "not an error, explicitly
  distinguished": the promise of a request in flight is rejected with a cancellation,
  so that its \<open>catch\<close> handler runs with \<open>axios.isCancel\<close> true. Cancelling a
  request that has settled does nothing.
\<close>

definition cancelPage :: "app_state \<Rightarrow> app_state" where
  "cancelPage s =
     (case pageReq s of
        Some rid \<Rightarrow> pageSettled RejectsCancel (s\<lparr>pageReq := None\<rparr>)
      | None \<Rightarrow> s)"

text \<open>
  Modelled from the spec: the same for \<open>source.cancel()\<close> in the cleanup of the
  second effect (lines 130-132) and the positions request (spec, section 5: "cancelled
  only on teardown").
\<close>

definition cancelPositions :: "app_state \<Rightarrow> app_state" where
  "cancelPositions s =
     (if posReq s then positionsSettled RejectsCancel (s\<lparr>posReq := False\<rparr>) else s)"

text \<open>
  Modelled from the spec: whether the answer to page request \<open>rid\<close> reaches the
  handlers of lines 94-105. No line of the source decides it: axios, its cancel token
  and the promise of the request do, and they are not under src/. Spec, section 5: "a
  superseded page-fetch's result, if it resolves after cancellation, is discarded and
  never applied to the list". An answer settles the request it belongs to while that
  request is in flight, and the handlers run; the answer to a request that has been
  cancelled, or that has settled already, is discarded.
\<close>

definition deliverPage :: "nat \<Rightarrow> axios_error + GetUserResponse \<Rightarrow> app_state \<Rightarrow> app_state" where
  "deliverPage rid r s =
     (if pageReq s = Some rid
      then pageSettled (case r of Inr res \<Rightarrow> Fulfils res | Inl err \<Rightarrow> RejectsError) (s\<lparr>pageReq := None\<rparr>)
      else s)"

text \<open>
  Modelled from the spec: the same for the answer to the positions request and the
  handlers of lines 118-128.
\<close>

definition deliverPositions :: "axios_error + GetPositionsResponse \<Rightarrow> app_state \<Rightarrow> app_state" where
  "deliverPositions r s =
     (if posReq s
      then positionsSettled (case r of Inr res \<Rightarrow> Fulfils res | Inl err \<Rightarrow> RejectsError) (s\<lparr>posReq := False\<rparr>)
      else s)"

text \<open>
  \<open>setCurrPage\<close> (line 293) with the effect that depends on \<open>currPage\<close> (line 110):
  a new value runs the cleanup of the previous effect and then the effect again; the
  same value causes no render.
\<close>

definition setCurrPage :: "string \<Rightarrow> app_state \<Rightarrow> app_state" where
  "setCurrPage u s =
     (if u = currPage s then s else startPageFetch (cancelPage (s\<lparr>currPage := u\<rparr>)))"

definition baseURL :: string where
  "baseURL = ''https://abzagency-test-production.up.railway.app/api/v1''"

text \<open>The component once mounted: both effects have issued their requests.\<close>

definition init :: app_state where
  "init =
     \<lparr>currPage = baseURL @ ''/users?page=1&count=6'', nextPage = None, users = [],
      seen = False, token = None, positions = [], selectedPosition = None,
      tokenRef = None, fileRef = None, fieldErrors = Map.empty, alerts = [], xlog = [],
      pageReq = Some 0, nextReqId = 1, posReq = True, mounted = True\<rparr>"

text \<open>
  What can happen in a session: the answer to page request \<open>rid\<close> or to the
  positions request arrives, the operator clicks "Show more", "Create new User",
  "Submit" (with the form's values; the number bounds the calls of \<open>reqCreateUser\<close>) or
  "Close", picks a position or a file, or the component is unmounted.
\<close>

datatype event =
    PageAnswer nat "axios_error + GetUserResponse"
  | PositionsAnswer "axios_error + GetPositionsResponse"
  | ClickShowMore
  | ClickCreate
  | Submit CreateUser nat
  | ClickClose
  | SelectPosition "PositionOption option"
  | ChooseFile "photo_file option"
  | Unmount

text \<open>
  One event. The button "Show more" exists when \<open>nextPage\<close> is truthy (line 289);
  the form, with its fields and buttons, when \<open>seen\<close> holds (line 227). Formik runs
  its validation, of which this form has none, before it calls \<open>onSubmit\<close> (line
  232), and the errors it holds are then those of that validation: none. A submission
  is run as one step; it has no next state when \<open>reqCreateUser\<close> does not settle
  within the given number of calls.
\<close>

definition handle :: "server \<Rightarrow> event \<Rightarrow> app_state \<Rightarrow> app_state option" where
  "handle srv e s =
     (case e of
        PageAnswer rid r \<Rightarrow> Some (deliverPage rid r s)
      | PositionsAnswer r \<Rightarrow> Some (deliverPositions r s)
      | ClickShowMore \<Rightarrow>
          Some (case nextPage s of Some u \<Rightarrow> if u \<noteq> [] then setCurrPage u s else s | None \<Rightarrow> s)
      | ClickCreate \<Rightarrow> Some (onClickUserCreate srv (closure_of s) s)
      | Submit values n \<Rightarrow>
          (if seen s
           then (case reqCreateUser n srv (closure_of s) values (s\<lparr>fieldErrors := Map.empty\<rparr>) of
                   (Some out, s') \<Rightarrow> Some s'
                 | (None, s') \<Rightarrow> None)
           else Some s)
      | ClickClose \<Rightarrow> Some (if seen s then togglePopCreateUser (closure_of s) s else s)
      | SelectPosition opt \<Rightarrow> Some (if seen s then s\<lparr>selectedPosition := opt\<rparr> else s)
      | ChooseFile f \<Rightarrow> Some (if seen s then s\<lparr>fileRef := f\<rparr> else s)
      | Unmount \<Rightarrow> Some ((cancelPositions (cancelPage s))\<lparr>mounted := False\<rparr>))"

text \<open>The render after an event: a closed form has no file input, and a form that is
  opened again has a new, empty one.\<close>

definition rerender :: "app_state \<Rightarrow> app_state" where
  "rerender s = (if seen s then s else s\<lparr>fileRef := None\<rparr>)"

text \<open>
  The operator's events and the unmounting happen to a mounted component and are
  followed by a render. An answer is delivered or discarded as above whenever it
  arrives.
\<close>

definition step :: "server \<Rightarrow> event \<Rightarrow> app_state \<Rightarrow> app_state option" where
  "step srv e s =
     (case e of
        PageAnswer rid r \<Rightarrow> handle srv e s
      | PositionsAnswer r \<Rightarrow> handle srv e s
      | _ \<Rightarrow> if mounted s then map_option rerender (handle srv e s) else Some s)"

fun run :: "server \<Rightarrow> event list \<Rightarrow> app_state \<Rightarrow> app_state option" where
  "run srv [] s = Some s"
| "run srv (e # es) s = (case step srv e s of None \<Rightarrow> None | Some s' \<Rightarrow> run srv es s')"

section \<open>Properties of the exchanges, and sample inputs\<close>

definition is_post :: "exchange \<Rightarrow> bool" where
  "is_post x = (case x of PostX p t r \<Rightarrow> True | _ \<Rightarrow> False)"

text \<open>
  \<open>carries_held held xs\<close> reads the exchanges \<open>xs\<close> of a submission that starts
  with \<open>held\<close> in \<open>tokenRef\<close>, and follows the token along them: a token request is
  made only when no token is held and its answer becomes the held token; every
  creation request has the held token in its header; the token is dropped when a
  creation request has failed and when the created user has been requested.
\<close>

fun carries_held :: "string option \<Rightarrow> exchange list \<Rightarrow> bool" where
  "carries_held held [] = True"
| "carries_held held (TokenX r # xs) =
     (falsy held \<and> carries_held (case r of Inr res \<Rightarrow> Some (rt_token res) | Inl e \<Rightarrow> held) xs)"
| "carries_held held (PostX p h r # xs) =
     (held = Some h \<and> carries_held (case r of Inr res \<Rightarrow> held | Inl e \<Rightarrow> None) xs)"
| "carries_held held (UserX i r # xs) = carries_held None xs"

text \<open>How the exchanges of a submission start: with the creation request under the held
  token when one is held; otherwise with a token request, which is the only exchange
  when it fails and is followed by the creation request under the fetched token when
  it succeeds.\<close>

definition starts_right :: "closure \<Rightarrow> CreateUser \<Rightarrow> app_state \<Rightarrow> exchange list \<Rightarrow> bool" where
  "starts_right c values s new =
     (if falsy (tokenRef s)
      then \<exists>r rest. new = TokenX r # rest \<and>
             (case r of
                Inl e \<Rightarrow> rest = []
              | Inr res \<Rightarrow> \<exists>r' rest'. rest = PostX (mkPayload c values s) (rt_token res) r' # rest')
      else \<exists>r rest. new = PostX (mkPayload c values s) (the (tokenRef s)) r # rest)"

definition user1 :: User where
  "user1 = \<lparr>u_id = ''7'', u_name = ''Ann'', u_email = ''ann@example.com'', u_phone = ''+380501234567'',
     u_photo = ''ann.jpg'', u_position = ''Designer'', u_position_id = 2,
     u_registration_timestamp = 1700000000\<rparr>"

definition user2 :: User where
  "user2 = \<lparr>u_id = ''3'', u_name = ''Bob'', u_email = ''bob@example.com'', u_phone = ''+380507654321'',
     u_photo = ''bob.jpg'', u_position = ''Lawyer'', u_position_id = 1,
     u_registration_timestamp = 1600000000\<rparr>"

definition values1 :: CreateUser where
  "values1 = \<lparr>cu_name = ''Ann'', cu_email = ''ann@example.com'', cu_phone = ''+380501234567'',
     cu_photo = [], cu_position_id = 0\<rparr>"

text \<open>The form is open with a token held, a position and a file chosen, one user listed.\<close>

definition form_open :: app_state where
  "form_open = init\<lparr>users := [user2], seen := True, token := Some ''t0'', tokenRef := Some ''t0'',
     selectedPosition := Some \<lparr>po_value = 2, po_label = ''Designer''\<rparr>,
     fileRef := Some ''ann.jpg'', pageReq := None, posReq := False\<rparr>"

definition unauthorized :: axios_error where
  "unauthorized = HttpError 401 (Some \<lparr>e_success = False, e_fails = None\<rparr>)"

definition created :: ResponseCreatedUser where
  "created = \<lparr>rc_success = True, rc_message = ''New user successfully registered'', rc_user_id = ''7''\<rparr>"

text \<open>A service that answers the first \<open>k\<close> creation requests of a session with the
  unauthorized signal and accepts the next one.\<close>

definition srv_expire :: "nat \<Rightarrow> server" where
  "srv_expire k =
     \<lparr>token_reply = (\<lambda>h. Inr \<lparr>rt_success = True, rt_token = ''t1''\<rparr>),
      post_reply = (\<lambda>h p t. if length (filter is_post h) < k then Inl unauthorized else Inr created),
      user_reply = (\<lambda>h i. Inr user1)\<rparr>"

text \<open>A service that cannot be reached.\<close>

definition srv_offline :: server where
  "srv_offline =
     \<lparr>token_reply = (\<lambda>h. Inl NoResponse),
      post_reply = (\<lambda>h p t. Inl NoResponse),
      user_reply = (\<lambda>h i. Inl NoResponse)\<rparr>"

text \<open>A service that accepts the creation request and then cannot be reached for the
  record of the created user.\<close>

definition srv_unreadable :: server where
  "srv_unreadable =
     \<lparr>token_reply = (\<lambda>h. Inr \<lparr>rt_success = True, rt_token = ''t1''\<rparr>),
      post_reply = (\<lambda>h p t. Inr created),
      user_reply = (\<lambda>h i. Inl NoResponse)\<rparr>"

text \<open>A service that accepts the creation request and then answers the request for
  the created user with status 404.\<close>

definition srv_missing :: server where
  "srv_missing =
     \<lparr>token_reply = (\<lambda>h. Inr \<lparr>rt_success = True, rt_token = ''t1''\<rparr>),
      post_reply = (\<lambda>h p t. Inr created),
      user_reply = (\<lambda>h i. Inl (HttpError 404 (Some \<lparr>e_success = False, e_fails = None\<rparr>)))\<rparr>"

text \<open>A service that rejects the form's email and phone.\<close>

definition email_fails :: "(string \<times> string list) list" where
  "email_fails =
     [(''email'', [''The email must be a valid email address'', ''The email field is required'']),
      (''phone'', [''The phone field is required''])]"

definition srv_invalid :: server where
  "srv_invalid =
     \<lparr>token_reply = (\<lambda>h. Inr \<lparr>rt_success = True, rt_token = ''t1''\<rparr>),
      post_reply = (\<lambda>h p t. Inl (HttpError 422 (Some \<lparr>e_success = False, e_fails = Some email_fails\<rparr>))),
      user_reply = (\<lambda>h i. Inr user1)\<rparr>"

text \<open>A page of the listing with the given users, \<open>count\<close> and next page.\<close>

definition page_of :: "User list \<Rightarrow> int \<Rightarrow> string option \<Rightarrow> GetUserResponse" where
  "page_of us cnt nxt =
     \<lparr>gu_success = True, gu_page = None, gu_offset = None, gu_total_pages = 2, gu_total_users = 7,
      gu_count = cnt, gu_links = \<lparr>next_url = nxt, prev_url = None\<rparr>, gu_users = us\<rparr>"

section \<open>Basic facts about the blocks of \<open>reqCreateUser\<close>\<close>

lemmas flow_defs = acquireToken_def getToken_def tryBlock_def catchBlock_def setToken_def alert_def
  togglePopCreateUser_def mkPayload_def Let_def

lemmas sample_defs = form_open_def init_def closure_of_def values1_def srv_expire_def srv_offline_def
  srv_invalid_def unauthorized_def created_def is_post_def falsy_def

lemma falsy_simps [simp]: "falsy None" "falsy (Some t) = (t = [])"
  by (simp_all add: falsy_def)

lemma catchBlock_Retry:
  "catchBlock e s2 = Retry s3 \<Longrightarrow>
     (\<exists>d. e = HttpError 401 (Some d) \<and> \<not> e_success d) \<and>
     s3 = setToken None (alert ''Your token has expired and will be updated now.'' s2)"
  by (auto simp: catchBlock_def Let_def split: axios_error.splits option.splits if_splits)

lemma catchBlock_Throws:
  "catchBlock e s2 = Throws \<Longrightarrow> e = NoResponse \<or> (\<exists>status. e = HttpError status None)"
  by (auto simp: catchBlock_def Let_def split: axios_error.splits option.splits if_splits)

lemma setFieldErrors_frame:
  "users (setFieldErrors fs s) = users s \<and> seen (setFieldErrors fs s) = seen s \<and>
   alerts (setFieldErrors fs s) = alerts s \<and> xlog (setFieldErrors fs s) = xlog s \<and>
   tokenRef (setFieldErrors fs s) = tokenRef s \<and> fileRef (setFieldErrors fs s) = fileRef s \<and>
   token (setFieldErrors fs s) = token s"
  by (induction fs s rule: setFieldErrors.induct) (simp_all add: setFieldError_def)

lemma catchBlock_Handled:
  "catchBlock e s2 = Handled s3 \<Longrightarrow>
     users s3 = users s2 \<and> seen s3 = seen s2 \<and> alerts s3 = alerts s2 \<and> xlog s3 = xlog s2 \<and>
     fileRef s3 = fileRef s2 \<and>
     (\<exists>status d. e = HttpError status (Some d) \<and> \<not> (status = 401 \<and> \<not> e_success d))"
  by (auto simp: catchBlock_def Let_def setFieldErrors_frame split: axios_error.splits if_splits option.splits)

lemma acquireToken_Inl:
  "acquireToken srv c s = Inl s1 \<Longrightarrow>
     falsy (tokenRef s) \<and> tokenRef s1 = tokenRef s \<and> users s1 = users s \<and>
     (\<exists>e. token_reply srv (xlog s) = Inl e \<and> xlog s1 = xlog s @ [TokenX (Inl e)]) \<and>
     alerts s1 = alerts s @ [TOKEN_ERROR_MESSAGE] \<and> seen s1 = (\<not> seen_c c) \<and>
     fieldErrors s1 = fieldErrors s \<and> fileRef s1 = fileRef s"
  by (auto simp: flow_defs split: if_splits sum.splits)

lemma acquireToken_Inr:
  "acquireToken srv c s = Inr (t, s1) \<Longrightarrow>
     tokenRef s1 = Some t \<and> users s1 = users s \<and> alerts s1 = alerts s \<and> seen s1 = seen s \<and>
     fieldErrors s1 = fieldErrors s \<and> fileRef s1 = fileRef s \<and>
     (if falsy (tokenRef s)
      then (\<exists>res. token_reply srv (xlog s) = Inr res \<and> rt_token res = t \<and> xlog s1 = xlog s @ [TokenX (Inr res)])
      else tokenRef s = Some t \<and> s1 = s)"
  by (auto simp: flow_defs falsy_def split: if_splits sum.splits option.splits)

lemma tryBlock_None:
  "tryBlock srv c values t s1 = (None, s2) \<Longrightarrow>
     (\<exists>res user.
        post_reply srv (xlog s1) (mkPayload c values s1) t = Inr res \<and>
        user_reply srv (xlog s1 @ [PostX (mkPayload c values s1) t (Inr res)]) (rc_user_id res) = Inr user \<and>
        xlog s2 = xlog s1 @ [PostX (mkPayload c values s1) t (Inr res), UserX (rc_user_id res) (Inr user)] \<and>
        users s2 = user # users s1) \<and>
     seen s2 = (\<not> seen_c c) \<and> alerts s2 = alerts s1 @ [''Successfully created user''] \<and>
     tokenRef s2 = tokenRef s1 \<and> fieldErrors s2 = fieldErrors s1 \<and> fileRef s2 = fileRef s1"
  by (auto simp: tryBlock_def Let_def alert_def togglePopCreateUser_def split: sum.splits)

lemma tryBlock_Some:
  "tryBlock srv c values t s1 = (Some e, s2) \<Longrightarrow>
     users s2 = users s1 \<and> seen s2 = seen s1 \<and> alerts s2 = alerts s1 \<and>
     tokenRef s2 = tokenRef s1 \<and> fieldErrors s2 = fieldErrors s1 \<and> fileRef s2 = fileRef s1 \<and>
     (xlog s2 = xlog s1 @ [PostX (mkPayload c values s1) t (Inl e)] \<or>
      (\<exists>res. xlog s2 = xlog s1 @ [PostX (mkPayload c values s1) t (Inr res), UserX (rc_user_id res) (Inl e)]))"
  by (auto simp: tryBlock_def Let_def split: sum.splits)

lemma reqCreateUser_Suc_cases [consumes 1, case_names token_failed completed threw retry handled]:
  assumes "reqCreateUser (Suc n) srv c values s = r"
  obtains
    s1 where "acquireToken srv c s = Inl s1" "r = (Some Resolved, s1)"
  | t s1 s2 where "acquireToken srv c s = Inr (t, s1)" "tryBlock srv c values t s1 = (None, s2)"
      "r = (Some Resolved, setToken None s2)"
  | t s1 e s2 where "acquireToken srv c s = Inr (t, s1)" "tryBlock srv c values t s1 = (Some e, s2)"
      "catchBlock e s2 = Throws" "r = (Some Rejected, setToken None s2)"
  | t s1 e s2 s3 where "acquireToken srv c s = Inr (t, s1)" "tryBlock srv c values t s1 = (Some e, s2)"
      "catchBlock e s2 = Retry s3" "r = reqCreateUser n srv c values (setToken None s3)"
  | t s1 e s2 s3 where "acquireToken srv c s = Inr (t, s1)" "tryBlock srv c values t s1 = (Some e, s2)"
      "catchBlock e s2 = Handled s3" "r = (Some Resolved, setToken None s3)"
proof (cases "acquireToken srv c s")
  case (Inl s1)
  with assms that(1) show ?thesis by simp
next
  case (Inr p)
  obtain t s1 where p: "p = (t, s1)" by (cases p)
  obtain q s2 where tb: "tryBlock srv c values t s1 = (q, s2)" by (cases "tryBlock srv c values t s1")
  show ?thesis
  proof (cases q)
    case None
    with assms Inr p tb that(2) show ?thesis by simp
  next
    case (Some e)
    show ?thesis
    proof (cases "catchBlock e s2")
      case Throws
      with assms Inr p tb Some that(3) show ?thesis by simp
    next
      case (Retry s3)
      with assms Inr p tb Some that(4) show ?thesis by simp
    next
      case (Handled s3)
      with assms Inr p tb Some that(5) show ?thesis by simp
    qed
  qed
qed

section \<open>The held token after a run of \<open>reqCreateUser\<close>\<close>

lemma token_after_run:
  "fst (reqCreateUser n srv c values s) = Some out \<Longrightarrow>
     falsy (tokenRef (snd (reqCreateUser n srv c values s))) \<and>
     (tokenRef s \<noteq> Some [] \<longrightarrow> tokenRef (snd (reqCreateUser n srv c values s)) = None)"
proof (induction n arbitrary: s)
  case 0
  then show ?case by simp
next
  case (Suc n)
  obtain r where r: "reqCreateUser (Suc n) srv c values s = r" by simp
  from r show ?case
  proof (cases rule: reqCreateUser_Suc_cases)
    case (token_failed s1)
    with r acquireToken_Inl[OF token_failed(1)] show ?thesis
      by (auto simp: falsy_def split: option.splits)
  next
    case (retry t s1 e s2 s3)
    with r Suc.prems have "fst (reqCreateUser n srv c values (setToken None s3)) = Some out" by simp
    from Suc.IH[OF this] r retry(4) show ?thesis by (simp add: setToken_def)
  qed (use r in \<open>auto simp: setToken_def falsy_def\<close>)
qed

section \<open>An accepted submission\<close>

text \<open>
  Claim C3, as amended. When a token is at hand (held, or just fetched), the service
  accepts the creation request with a \<open>user_id\<close>, and the request for that user is
  answered with a record, the submission settles as fulfilled after exactly these two
  requests, the second one being \<open>GET /users/:id\<close> for the returned identifier; the
  list is then the fetched record in front of the previous list, the form (displayed at
  the render the handler belongs to) is closed, success is reported and the token is
  null.
\<close>

theorem accepted_submission_prepends:
  assumes "acquireToken srv c s = Inr (t, s1)"
    and "post_reply srv (xlog s1) (mkPayload c values s1) t = Inr res"
    and "user_reply srv (xlog s1 @ [PostX (mkPayload c values s1) t (Inr res)]) (rc_user_id res) = Inr user"
    and "seen_c c"
  shows "fst (reqCreateUser (Suc n) srv c values s) = Some Resolved \<and>
         xlog (snd (reqCreateUser (Suc n) srv c values s)) =
           xlog s1 @ [PostX (mkPayload c values s1) t (Inr res), UserX (rc_user_id res) (Inr user)] \<and>
         users (snd (reqCreateUser (Suc n) srv c values s)) = user # users s \<and>
         \<not> seen (snd (reqCreateUser (Suc n) srv c values s)) \<and>
         alerts (snd (reqCreateUser (Suc n) srv c values s)) = alerts s @ [''Successfully created user''] \<and>
         tokenRef (snd (reqCreateUser (Suc n) srv c values s)) = None"
proof -
  have tb: "tryBlock srv c values t s1 =
      (None, alert ''Successfully created user''
         (togglePopCreateUser c
           (s1\<lparr>xlog := xlog s1 @ [PostX (mkPayload c values s1) t (Inr res), UserX (rc_user_id res) (Inr user)],
               users := user # users s1\<rparr>)))"
    using assms(2,3) by (simp add: tryBlock_def Let_def)
  from acquireToken_Inr[OF assms(1)] have "users s1 = users s" "alerts s1 = alerts s" by simp_all
  with assms(1,4) tb show ?thesis
    by (simp add: setToken_def alert_def togglePopCreateUser_def)
qed

theorem accepted_submission_prepends_witness:
  "acquireToken (srv_expire 0) (closure_of form_open) form_open = Inr (''t0'', form_open) \<and>
   fst (reqCreateUser 1 (srv_expire 0) (closure_of form_open) values1 form_open) = Some Resolved \<and>
   users (snd (reqCreateUser 1 (srv_expire 0) (closure_of form_open) values1 form_open)) = [user1, user2] \<and>
   \<not> seen (snd (reqCreateUser 1 (srv_expire 0) (closure_of form_open) values1 form_open))"
proof -
  have a: "acquireToken (srv_expire 0) (closure_of form_open) form_open = Inr (''t0'', form_open)"
    by (simp add: acquireToken_def form_open_def init_def)
  have p: "post_reply (srv_expire 0) (xlog form_open) (mkPayload (closure_of form_open) values1 form_open) ''t0'' = Inr created"
    by (simp add: srv_expire_def)
  have u: "user_reply (srv_expire 0)
      (xlog form_open @ [PostX (mkPayload (closure_of form_open) values1 form_open) ''t0'' (Inr created)])
      (rc_user_id created) = Inr user1"
    by (simp add: srv_expire_def)
  have o: "seen_c (closure_of form_open)"
    by (simp add: closure_of_def form_open_def)
  have us: "users form_open = [user2]"
    by (simp add: form_open_def)
  from accepted_submission_prepends[OF a p u o, of 0] a us show ?thesis by simp
qed

text \<open>
  Claim C3 as stated fails for an accepted submission whose created user cannot be
  fetched: the list is extended only after the second request has succeeded, so the
  list stays as it was and the form stays open.
\<close>

theorem accepted_but_not_fetched_counterexample:
  "post_reply srv_unreadable (xlog form_open) (mkPayload (closure_of form_open) values1 form_open) ''t0''
     = Inr created \<and>
   xlog (snd (reqCreateUser 1 srv_unreadable (closure_of form_open) values1 form_open)) =
     [PostX (mkPayload (closure_of form_open) values1 form_open) ''t0'' (Inr created),
      UserX ''7'' (Inl NoResponse)] \<and>
   users (snd (reqCreateUser 1 srv_unreadable (closure_of form_open) values1 form_open)) = users form_open \<and>
   seen (snd (reqCreateUser 1 srv_unreadable (closure_of form_open) values1 form_open))"
  by (simp add: flow_defs form_open_def init_def closure_of_def srv_unreadable_def created_def)

section \<open>A submission rejected for its field values\<close>

lemma setFieldErrors_fieldErrors:
  "distinct (map fst fails) \<Longrightarrow>
     fieldErrors (setFieldErrors fails s) key =
       (case map_of fails key of Some msgs \<Rightarrow> Some (join ''. '' msgs) | None \<Rightarrow> fieldErrors s key)"
proof (induction fails arbitrary: s)
  case Nil
  then show ?case by simp
next
  case (Cons kv rest)
  obtain k v where kv: "kv = (k, v)" by (cases kv)
  from Cons.prems kv have fresh: "map_of rest k = None" and d: "distinct (map fst rest)"
    by (simp_all add: map_of_eq_None_iff)
  show ?case
  proof (cases "key = k")
    case True
    with fresh kv Cons.IH[OF d, of "setFieldError k (join ''. '' v) s"] show ?thesis
      by (simp add: setFieldError_def)
  next
    case False
    with kv Cons.IH[OF d, of "setFieldError k (join ''. '' v) s"] show ?thesis
      by (simp add: setFieldError_def split: option.splits)
  qed
qed

text \<open>
  Claim C5. When the creation request is answered with status 422, a falsy
  \<open>success\<close> and a \<open>fails\<close> object, the submission settles as fulfilled; every field
  named in \<open>fails\<close> has as its error the messages of the service for that field, joined
  with \<open>. \<close> (a single message is the error as it is), the other fields keep their
  error, the list is unchanged, the form stays as it is, nothing is alerted, no second
  creation request is sent and the token is null. The keys of a JavaScript object are
  distinct.
\<close>

theorem validation_failure_sets_field_errors:
  assumes "acquireToken srv c s = Inr (t, s1)"
    and "post_reply srv (xlog s1) (mkPayload c values s1) t = Inl (HttpError 422 (Some d))"
    and "\<not> e_success d" and "e_fails d = Some fails" and "distinct (map fst fails)"
  shows "fst (reqCreateUser (Suc n) srv c values s) = Some Resolved \<and>
         (\<forall>(key, msgs) \<in> set fails.
            fieldErrors (snd (reqCreateUser (Suc n) srv c values s)) key = Some (join ''. '' msgs)) \<and>
         (\<forall>key. key \<notin> fst ` set fails \<longrightarrow>
            fieldErrors (snd (reqCreateUser (Suc n) srv c values s)) key = fieldErrors s key) \<and>
         users (snd (reqCreateUser (Suc n) srv c values s)) = users s \<and>
         seen (snd (reqCreateUser (Suc n) srv c values s)) = seen s \<and>
         alerts (snd (reqCreateUser (Suc n) srv c values s)) = alerts s \<and>
         length (filter is_post (xlog (snd (reqCreateUser (Suc n) srv c values s))))
           = Suc (length (filter is_post (xlog s))) \<and>
         tokenRef (snd (reqCreateUser (Suc n) srv c values s)) = None"
proof -
  let ?s2 = "s1\<lparr>xlog := xlog s1 @ [PostX (mkPayload c values s1) t (Inl (HttpError 422 (Some d)))]\<rparr>"
  have tb: "tryBlock srv c values t s1 = (Some (HttpError 422 (Some d)), ?s2)"
    using assms(2) by (simp add: tryBlock_def Let_def)
  have cb: "catchBlock (HttpError 422 (Some d)) ?s2 = Handled (setFieldErrors fails ?s2)"
    using assms(3,4) by (simp add: catchBlock_def)
  have run: "reqCreateUser (Suc n) srv c values s = (Some Resolved, setToken None (setFieldErrors fails ?s2))"
    using assms(1) tb cb by simp
  have fe: "fieldErrors (setToken None (setFieldErrors fails ?s2)) key =
      (case map_of fails key of Some msgs \<Rightarrow> Some (join ''. '' msgs) | None \<Rightarrow> fieldErrors s key)" for key
    using setFieldErrors_fieldErrors[OF assms(5), of ?s2 key] acquireToken_Inr[OF assms(1)]
    by (simp add: setToken_def split: option.splits)
  have named: "\<forall>(key, msgs) \<in> set fails.
      fieldErrors (setToken None (setFieldErrors fails ?s2)) key = Some (join ''. '' msgs)"
    using assms(5) by (auto simp: fe)
  have others: "\<forall>key. key \<notin> fst ` set fails \<longrightarrow>
      fieldErrors (setToken None (setFieldErrors fails ?s2)) key = fieldErrors s key"
    by (force simp: fe split: option.splits dest: map_of_SomeD)
  have posts: "length (filter is_post (xlog s1)) = length (filter is_post (xlog s))"
    using acquireToken_Inr[OF assms(1)] by (auto simp: is_post_def split: if_splits)
  have rest: "users (setToken None (setFieldErrors fails ?s2)) = users s \<and>
      seen (setToken None (setFieldErrors fails ?s2)) = seen s \<and>
      alerts (setToken None (setFieldErrors fails ?s2)) = alerts s \<and>
      length (filter is_post (xlog (setToken None (setFieldErrors fails ?s2))))
        = Suc (length (filter is_post (xlog s))) \<and>
      tokenRef (setToken None (setFieldErrors fails ?s2)) = None"
    using acquireToken_Inr[OF assms(1)] posts
    by (simp add: setToken_def setFieldErrors_frame is_post_def)
  from named others rest show ?thesis
    unfolding run by simp
qed

theorem validation_failure_sets_field_errors_witness:
  "acquireToken srv_invalid (closure_of form_open) form_open = Inr (''t0'', form_open) \<and>
   post_reply srv_invalid (xlog form_open) (mkPayload (closure_of form_open) values1 form_open) ''t0''
     = Inl (HttpError 422 (Some \<lparr>e_success = False, e_fails = Some email_fails\<rparr>)) \<and>
   distinct (map fst email_fails) \<and>
   fst (reqCreateUser 1 srv_invalid (closure_of form_open) values1 form_open) = Some Resolved \<and>
   fieldErrors (snd (reqCreateUser 1 srv_invalid (closure_of form_open) values1 form_open)) ''email''
     = Some ''The email must be a valid email address. The email field is required'' \<and>
   fieldErrors (snd (reqCreateUser 1 srv_invalid (closure_of form_open) values1 form_open)) ''phone''
     = Some ''The phone field is required'' \<and>
   fieldErrors (snd (reqCreateUser 1 srv_invalid (closure_of form_open) values1 form_open)) ''name''
     = None \<and>
   users (snd (reqCreateUser 1 srv_invalid (closure_of form_open) values1 form_open)) = [user2] \<and>
   seen (snd (reqCreateUser 1 srv_invalid (closure_of form_open) values1 form_open)) \<and>
   tokenRef (snd (reqCreateUser 1 srv_invalid (closure_of form_open) values1 form_open)) = None"
proof -
  have a: "acquireToken srv_invalid (closure_of form_open) form_open = Inr (''t0'', form_open)"
    by (simp add: acquireToken_def form_open_def init_def)
  have p: "post_reply srv_invalid (xlog form_open) (mkPayload (closure_of form_open) values1 form_open) ''t0''
      = Inl (HttpError 422 (Some \<lparr>e_success = False, e_fails = Some email_fails\<rparr>))"
    by (simp add: srv_invalid_def)
  have ns: "\<not> e_success \<lparr>e_success = False, e_fails = Some email_fails\<rparr>"
    by simp
  have f: "e_fails \<lparr>e_success = False, e_fails = Some email_fails\<rparr> = Some email_fails"
    by simp
  have d: "distinct (map fst email_fails)"
    by (simp add: email_fails_def)
  have st: "users form_open = [user2]" "seen form_open" "fieldErrors form_open ''name'' = None"
    by (simp_all add: form_open_def init_def)
  from validation_failure_sets_field_errors[OF a p ns f d, of 0] a p d st show ?thesis
    by (simp add: email_fails_def)
qed

section \<open>A request of the submission that gets no answer\<close>

text \<open>
  Claim C10, as amended. When the creation request, or the request for the created
  user that follows an accepted creation request, fails with an error that carries no
  response, line 201 raises a TypeError inside the \<open>catch\<close> block: the promise is
  rejected, nothing is alerted, no field error is set, the list and the form are
  unchanged, no further creation request is sent, and the \<open>finally\<close> block has set
  the token to null.
\<close>

theorem no_response_rejects:
  assumes "acquireToken srv c s = Inr (t, s1)"
    and "post_reply srv (xlog s1) (mkPayload c values s1) t = Inl NoResponse \<or>
         (\<exists>res. post_reply srv (xlog s1) (mkPayload c values s1) t = Inr res \<and>
                user_reply srv (xlog s1 @ [PostX (mkPayload c values s1) t (Inr res)]) (rc_user_id res)
                  = Inl NoResponse)"
  shows "fst (reqCreateUser (Suc n) srv c values s) = Some Rejected \<and>
         alerts (snd (reqCreateUser (Suc n) srv c values s)) = alerts s \<and>
         fieldErrors (snd (reqCreateUser (Suc n) srv c values s)) = fieldErrors s \<and>
         users (snd (reqCreateUser (Suc n) srv c values s)) = users s \<and>
         seen (snd (reqCreateUser (Suc n) srv c values s)) = seen s \<and>
         length (filter is_post (xlog (snd (reqCreateUser (Suc n) srv c values s))))
           = Suc (length (filter is_post (xlog s))) \<and>
         tokenRef (snd (reqCreateUser (Suc n) srv c values s)) = None"
proof -
  obtain s2 where tb: "tryBlock srv c values t s1 = (Some NoResponse, s2)"
    using assms(2) by (auto simp: tryBlock_def Let_def)
  have cb: "catchBlock NoResponse s2 = Throws"
    by (simp add: catchBlock_def)
  have posts: "length (filter is_post (xlog s2)) = Suc (length (filter is_post (xlog s1)))"
    using tryBlock_Some[OF tb] by (auto simp: is_post_def)
  have "length (filter is_post (xlog s1)) = length (filter is_post (xlog s))"
    using acquireToken_Inr[OF assms(1)] by (auto simp: is_post_def split: if_splits)
  with posts acquireToken_Inr[OF assms(1)] tryBlock_Some[OF tb] assms(1) tb cb show ?thesis
    by (simp add: setToken_def)
qed

theorem no_response_rejects_witness:
  "acquireToken srv_offline (closure_of form_open) form_open = Inr (''t0'', form_open) \<and>
   post_reply srv_offline (xlog form_open) (mkPayload (closure_of form_open) values1 form_open) ''t0''
     = Inl NoResponse \<and>
   fst (reqCreateUser 1 srv_offline (closure_of form_open) values1 form_open) = Some Rejected \<and>
   alerts (snd (reqCreateUser 1 srv_offline (closure_of form_open) values1 form_open)) = [] \<and>
   users (snd (reqCreateUser 1 srv_offline (closure_of form_open) values1 form_open)) = [user2] \<and>
   tokenRef (snd (reqCreateUser 1 srv_offline (closure_of form_open) values1 form_open)) = None"
proof -
  have a: "acquireToken srv_offline (closure_of form_open) form_open = Inr (''t0'', form_open)"
    by (simp add: acquireToken_def form_open_def init_def)
  have p: "post_reply srv_offline (xlog form_open) (mkPayload (closure_of form_open) values1 form_open) ''t0''
      = Inl NoResponse"
    by (simp add: srv_offline_def)
  have st: "alerts form_open = []" "users form_open = [user2]"
    by (simp_all add: form_open_def init_def)
  from no_response_rejects[OF a disjI1[OF p], of 0] a p st show ?thesis by simp
qed

text \<open>
  Claim C10 as stated fails where it counts every failure of the request for the
  created user among the failures without a response: when that request is answered
  with status 404, \<open>error.response\<close> is there, the \<open>catch\<close> block runs to its end
  and the promise is fulfilled, not rejected.
\<close>

theorem fetch_answered_404_counterexample:
  "post_reply srv_missing (xlog form_open) (mkPayload (closure_of form_open) values1 form_open) ''t0''
     = Inr created \<and>
   xlog (snd (reqCreateUser 1 srv_missing (closure_of form_open) values1 form_open)) =
     [PostX (mkPayload (closure_of form_open) values1 form_open) ''t0'' (Inr created),
      UserX ''7'' (Inl (HttpError 404 (Some \<lparr>e_success = False, e_fails = None\<rparr>)))] \<and>
   fst (reqCreateUser 1 srv_missing (closure_of form_open) values1 form_open) = Some Resolved"
  by (simp add: flow_defs form_open_def init_def closure_of_def srv_missing_def created_def)

section \<open>The exchanges of a submission\<close>

lemma mkPayload_fileRef: "fileRef s1 = fileRef s \<Longrightarrow> mkPayload c values s1 = mkPayload c values s"
  by (simp add: mkPayload_def)

lemma attempt_prefix:
  assumes a: "acquireToken srv c s = Inr (t, s1)" and tb: "tryBlock srv c values t s1 = (q, s2)"
  shows "\<exists>pre. xlog s2 = xlog s @ pre \<and>
           (\<forall>rest. carries_held (tokenRef s) (pre @ rest) = carries_held None rest) \<and>
           (\<forall>p' t' r'. PostX p' t' r' \<in> set pre \<longrightarrow> p' = mkPayload c values s) \<and>
           (\<forall>new. starts_right c values s (pre @ new))"
proof -
  from acquireToken_Inr[OF a] have fr: "fileRef s1 = fileRef s" by simp
  note pl = mkPayload_fileRef[OF fr, of c "values"]
  have "\<exists>mid. xlog s2 = xlog s1 @ mid \<and>
          (\<forall>rest. carries_held (Some t) (mid @ rest) = carries_held None rest) \<and>
          (\<forall>p' t' r'. PostX p' t' r' \<in> set mid \<longrightarrow> p' = mkPayload c values s) \<and>
          (\<exists>r rest. mid = PostX (mkPayload c values s) t r # rest)"
  proof (cases q)
    case None
    with tryBlock_None[of srv c "values" t s1 s2] tb pl show ?thesis by auto
  next
    case (Some e)
    with tryBlock_Some[of srv c "values" t s1 e s2] tb pl show ?thesis by auto
  qed
  then obtain mid where mid: "xlog s2 = xlog s1 @ mid"
      "\<forall>rest. carries_held (Some t) (mid @ rest) = carries_held None rest"
      "\<forall>p' t' r'. PostX p' t' r' \<in> set mid \<longrightarrow> p' = mkPayload c values s"
      "\<exists>r rest. mid = PostX (mkPayload c values s) t r # rest"
    by blast
  show ?thesis
  proof (cases "falsy (tokenRef s)")
    case True
    with acquireToken_Inr[OF a] obtain res where res: "rt_token res = t" "xlog s1 = xlog s @ [TokenX (Inr res)]"
      by auto
    have "xlog s2 = xlog s @ (TokenX (Inr res) # mid)" using mid(1) res(2) by simp
    moreover have "\<forall>rest. carries_held (tokenRef s) ((TokenX (Inr res) # mid) @ rest) = carries_held None rest"
      using True mid(2) res(1) by simp
    moreover have "\<forall>p' t' r'. PostX p' t' r' \<in> set (TokenX (Inr res) # mid) \<longrightarrow> p' = mkPayload c values s"
      using mid(3) by simp
    moreover have "\<forall>new. starts_right c values s ((TokenX (Inr res) # mid) @ new)"
      using True mid(4) res(1) by (auto simp: starts_right_def)
    ultimately show ?thesis by blast
  next
    case False
    with acquireToken_Inr[OF a] have "tokenRef s = Some t" "s1 = s" by simp_all
    moreover from this False mid(4) have "\<forall>new. starts_right c values s (mid @ new)"
      by (auto simp: starts_right_def)
    ultimately show ?thesis using mid(1,2,3) by auto
  qed
qed

lemma run_log:
  "\<exists>new more. xlog (snd (reqCreateUser n srv c values s)) = xlog s @ new \<and>
          alerts (snd (reqCreateUser n srv c values s)) = alerts s @ more \<and>
          carries_held (tokenRef s) new \<and>
          (\<forall>p t r. PostX p t r \<in> set new \<longrightarrow> p = mkPayload c values s) \<and>
          (0 < n \<longrightarrow> starts_right c values s new)"
proof (induction n arbitrary: s)
  case 0
  show ?case by simp
next
  case (Suc n)
  obtain r where r: "reqCreateUser (Suc n) srv c values s = r" by simp
  have fin: ?case
    if a: "acquireToken srv c s = Inr (t, s1)" and tb: "tryBlock srv c values t s1 = (q, s2)"
      and r': "xlog (snd r) = xlog s2" "\<exists>more. alerts (snd r) = alerts s2 @ more" for t s1 q s2
  proof -
    from attempt_prefix[OF a tb] obtain pre where pre: "xlog s2 = xlog s @ pre"
        "\<forall>rest. carries_held (tokenRef s) (pre @ rest) = carries_held None rest"
        "\<forall>p' t' r'. PostX p' t' r' \<in> set pre \<longrightarrow> p' = mkPayload c values s"
        "\<forall>new. starts_right c values s (pre @ new)"
      by blast
    from pre(4) have sr: "starts_right c values s pre" by (metis append_Nil2)
    from pre(2) have ch: "carries_held (tokenRef s) pre" by (metis append_Nil2 carries_held.simps(1))
    have "\<exists>more. alerts s2 = alerts s @ more"
      using acquireToken_Inr[OF a] tryBlock_None[of srv c "values" t s1 s2] tryBlock_Some[of srv c "values" t s1 _ s2] tb
      by (cases q) auto
    with r'(2) have "\<exists>more. alerts (snd r) = alerts s @ more" by auto
    with pre(1,3) sr ch r r'(1) show ?thesis by auto
  qed
  from r show ?case
  proof (cases rule: reqCreateUser_Suc_cases)
    case (token_failed s1)
    with r acquireToken_Inl[OF token_failed(1)] show ?thesis by (auto simp: starts_right_def)
  next
    case (completed t s1 s2)
    with fin[OF completed(1,2)] show ?thesis by (simp add: setToken_def)
  next
    case (threw t s1 e s2)
    with fin[OF threw(1,2)] show ?thesis by (simp add: setToken_def)
  next
    case (handled t s1 e s2 s3)
    with fin[OF handled(1,2)] catchBlock_Handled[OF handled(3)] show ?thesis by (simp add: setToken_def)
  next
    case (retry t s1 e s2 s3)
    from attempt_prefix[OF retry(1,2)] obtain pre where pre: "xlog s2 = xlog s @ pre"
        "\<forall>rest. carries_held (tokenRef s) (pre @ rest) = carries_held None rest"
        "\<forall>p' t' r'. PostX p' t' r' \<in> set pre \<longrightarrow> p' = mkPayload c values s"
        "\<forall>new. starts_right c values s (pre @ new)"
      by blast
    let ?s4 = "setToken None s3"
    from catchBlock_Retry[OF retry(3)] have s4: "xlog ?s4 = xlog s2" "tokenRef ?s4 = None" "fileRef ?s4 = fileRef s2"
        "alerts ?s4 = alerts s2 @ [''Your token has expired and will be updated now.'']"
      by (simp_all add: setToken_def alert_def)
    from acquireToken_Inr[OF retry(1)] tryBlock_Some[OF retry(2)] s4(3,4)
    have fr: "fileRef ?s4 = fileRef s" and al: "alerts ?s4 = alerts s @ [''Your token has expired and will be updated now.'']"
      by simp_all
    note pl = mkPayload_fileRef[OF fr, of c "values"]
    from Suc.IH[of ?s4] obtain new more where new: "xlog (snd (reqCreateUser n srv c values ?s4)) = xlog ?s4 @ new"
        "alerts (snd (reqCreateUser n srv c values ?s4)) = alerts ?s4 @ more"
        "carries_held None new" "\<forall>p t r. PostX p t r \<in> set new \<longrightarrow> p = mkPayload c values s"
      unfolding s4(2) pl by blast
    have "xlog (snd r) = xlog s @ (pre @ new)" using new(1) s4(1) pre(1) retry(4) by simp
    moreover have "alerts (snd r) = alerts s @ (''Your token has expired and will be updated now.'' # more)"
      using new(2) al retry(4) by simp
    moreover have "carries_held (tokenRef s) (pre @ new)" using pre(2) new(3) by simp
    moreover have "\<forall>p t r. PostX p t r \<in> set (pre @ new) \<longrightarrow> p = mkPayload c values s"
      using pre(3) new(4) by (metis Un_iff set_append)
    moreover have "starts_right c values s (pre @ new)" using pre(4) by blast
    ultimately show ?thesis using r by blast
  qed
qed

text \<open>
  Claim C8. For every submission and every bound of at least one call, the exchanges
  of the run extend the earlier ones and follow the held token: every creation request
  has in its \<open>Token\<close> header the token held when it is sent, and a token is requested
  only when none is held. When no token is held at the start, the first exchange is the
  token request, and the creation request that follows carries the token just fetched;
  otherwise the first exchange is the creation request with the held token.
\<close>

theorem creation_requests_carry_held_token:
  "\<exists>new. xlog (snd (reqCreateUser (Suc n) srv c values s)) = xlog s @ new \<and>
      carries_held (tokenRef s) new \<and> starts_right c values s new"
  using run_log[of "Suc n" srv c "values" s] by auto

theorem creation_requests_carry_held_token_witness:
  "xlog (snd (reqCreateUser (Suc 1) (srv_expire 1) (closure_of form_open) values1 form_open)) =
     xlog form_open @
       [PostX (mkPayload (closure_of form_open) values1 form_open) ''t0'' (Inl unauthorized),
        TokenX (Inr \<lparr>rt_success = True, rt_token = ''t1''\<rparr>),
        PostX (mkPayload (closure_of form_open) values1 form_open) ''t1'' (Inr created),
        UserX ''7'' (Inr user1)] \<and>
   carries_held (tokenRef form_open)
       [PostX (mkPayload (closure_of form_open) values1 form_open) ''t0'' (Inl unauthorized),
        TokenX (Inr \<lparr>rt_success = True, rt_token = ''t1''\<rparr>),
        PostX (mkPayload (closure_of form_open) values1 form_open) ''t1'' (Inr created),
        UserX ''7'' (Inr user1)] \<and>
   starts_right (closure_of form_open) values1 form_open
       [PostX (mkPayload (closure_of form_open) values1 form_open) ''t0'' (Inl unauthorized),
        TokenX (Inr \<lparr>rt_success = True, rt_token = ''t1''\<rparr>),
        PostX (mkPayload (closure_of form_open) values1 form_open) ''t1'' (Inr created),
        UserX ''7'' (Inr user1)]"
proof -
  have run: "xlog (snd (reqCreateUser (Suc 1) (srv_expire 1) (closure_of form_open) values1 form_open)) =
     xlog form_open @
       [PostX (mkPayload (closure_of form_open) values1 form_open) ''t0'' (Inl unauthorized),
        TokenX (Inr \<lparr>rt_success = True, rt_token = ''t1''\<rparr>),
        PostX (mkPayload (closure_of form_open) values1 form_open) ''t1'' (Inr created),
        UserX ''7'' (Inr user1)]"
    by (simp add: acquireToken_def getToken_def tryBlock_def catchBlock_def setToken_def alert_def
        togglePopCreateUser_def Let_def mkPayload_def
        form_open_def init_def closure_of_def srv_expire_def unauthorized_def created_def is_post_def)
  from creation_requests_carry_held_token[of 1 "srv_expire 1" "closure_of form_open" values1 form_open]
  show ?thesis unfolding run by simp
qed

section \<open>An expired token\<close>

lemma run_from_acquired:
  assumes a: "acquireToken srv c s = Inr (t, s1)"
  shows "\<exists>r rest more.
           xlog (snd (reqCreateUser (Suc n) srv c values s)) = xlog s1 @ PostX (mkPayload c values s) t r # rest \<and>
           alerts (snd (reqCreateUser (Suc n) srv c values s)) = alerts s @ more"
proof -
  obtain q s2 where tb: "tryBlock srv c values t s1 = (q, s2)" by (cases "tryBlock srv c values t s1")
  from acquireToken_Inr[OF a] have fr: "fileRef s1 = fileRef s" and al: "alerts s1 = alerts s" by simp_all
  note pl = mkPayload_fileRef[OF fr, of c "values"]
  have s2: "\<exists>r rest. xlog s2 = xlog s1 @ PostX (mkPayload c values s) t r # rest"
    using tryBlock_None[of srv c "values" t s1 s2] tryBlock_Some[of srv c "values" t s1 _ s2] tb pl
    by (cases q) auto
  from run_log[of "Suc n" srv c "values" s] obtain more where
    more: "alerts (snd (reqCreateUser (Suc n) srv c values s)) = alerts s @ more" by blast
  have "\<exists>new. xlog (snd (reqCreateUser (Suc n) srv c values s)) = xlog s2 @ new"
  proof (cases q)
    case None
    with a tb show ?thesis by (simp add: setToken_def)
  next
    case (Some e)
    show ?thesis
    proof (cases "catchBlock e s2")
      case Throws
      with a tb Some show ?thesis by (simp add: setToken_def)
    next
      case (Handled s3)
      with a tb Some catchBlock_Handled[OF Handled] show ?thesis by (simp add: setToken_def)
    next
      case (Retry s3)
      from catchBlock_Retry[OF Retry] have "xlog (setToken None s3) = xlog s2"
        by (simp add: setToken_def alert_def)
      with run_log[of n srv c "values" "setToken None s3"] a tb Some Retry show ?thesis by auto
    qed
  qed
  with s2 more show ?thesis by auto
qed

text \<open>
  Claim C4, as amended. When the creation request is answered with status 401 and a
  falsy \<open>success\<close>, and the token request that follows succeeds, the flow alerts the
  operator that the token has expired, drops the held token and runs the submission
  again with the same values, from a state in which no token is held: the creation
  request is sent again, with the same form (the same field values, position and
  photo) and the new token. The exchanges of the run, whatever follows, are the
  rejected request, the token request and the second creation request.
\<close>

theorem expired_token_resubmits:
  assumes a: "acquireToken srv c s = Inr (t, s1)"
    and p: "post_reply srv (xlog s1) (mkPayload c values s1) t = Inl (HttpError 401 (Some d))"
    and ns: "\<not> e_success d"
    and tk: "token_reply srv (xlog s1 @ [PostX (mkPayload c values s1) t (Inl (HttpError 401 (Some d)))]) = Inr tr"
  shows "(\<exists>s4. tokenRef s4 = None \<and>
            reqCreateUser (Suc (Suc n)) srv c values s = reqCreateUser (Suc n) srv c values s4) \<and>
         (\<exists>r rest more.
           xlog (snd (reqCreateUser (Suc (Suc n)) srv c values s)) =
             xlog s1 @ PostX (mkPayload c values s) t (Inl (HttpError 401 (Some d))) # TokenX (Inr tr) #
               PostX (mkPayload c values s) (rt_token tr) r # rest \<and>
           alerts (snd (reqCreateUser (Suc (Suc n)) srv c values s)) =
             alerts s @ ''Your token has expired and will be updated now.'' # more)"
proof -
  from acquireToken_Inr[OF a] have fr: "fileRef s1 = fileRef s" and al: "alerts s1 = alerts s" by simp_all
  note pl = mkPayload_fileRef[OF fr, of c "values"]
  let ?x = "PostX (mkPayload c values s) t (Inl (HttpError 401 (Some d)))"
  let ?s2 = "s1\<lparr>xlog := xlog s1 @ [?x]\<rparr>"
  let ?s4 = "setToken None (setToken None (alert ''Your token has expired and will be updated now.'' ?s2))"
  have tb: "tryBlock srv c values t s1 = (Some (HttpError 401 (Some d)), ?s2)"
    using p pl by (simp add: tryBlock_def Let_def)
  have cb: "catchBlock (HttpError 401 (Some d)) ?s2 =
      Retry (setToken None (alert ''Your token has expired and will be updated now.'' ?s2))"
    using ns by (simp add: catchBlock_def)
  have unfold: "reqCreateUser (Suc (Suc n)) srv c values s = reqCreateUser (Suc n) srv c values ?s4"
    using a tb cb by simp
  have s4: "xlog ?s4 = xlog s1 @ [?x]" "alerts ?s4 = alerts s @ [''Your token has expired and will be updated now.'']"
      "fileRef ?s4 = fileRef s" "tokenRef ?s4 = None"
    using fr al by (simp_all add: setToken_def alert_def)
  let ?s5 = "setToken (Some (rt_token tr)) (?s4\<lparr>xlog := xlog ?s4 @ [TokenX (Inr tr)]\<rparr>)"
  have a2: "acquireToken srv c ?s4 = Inr (rt_token tr, ?s5)"
    using tk pl s4(1,4) by (simp add: acquireToken_def getToken_def Let_def)
  have s5: "xlog ?s5 = xlog s1 @ [?x, TokenX (Inr tr)]"
    using s4(1) by (simp add: setToken_def)
  from run_from_acquired[OF a2, of n "values"] obtain r rest more where
    "xlog (snd (reqCreateUser (Suc n) srv c values ?s4)) = xlog ?s5 @ PostX (mkPayload c values ?s4) (rt_token tr) r # rest"
    "alerts (snd (reqCreateUser (Suc n) srv c values ?s4)) = alerts ?s4 @ more"
    by blast
  then have "\<exists>r rest more.
      xlog (snd (reqCreateUser (Suc (Suc n)) srv c values s)) =
        xlog s1 @ PostX (mkPayload c values s) t (Inl (HttpError 401 (Some d))) # TokenX (Inr tr) #
          PostX (mkPayload c values s) (rt_token tr) r # rest \<and>
      alerts (snd (reqCreateUser (Suc (Suc n)) srv c values s)) =
        alerts s @ ''Your token has expired and will be updated now.'' # more"
    unfolding unfold s5 s4(2) mkPayload_fileRef[OF s4(3), of c "values"] by simp
  moreover from unfold s4(4) have "\<exists>s4. tokenRef s4 = None \<and>
      reqCreateUser (Suc (Suc n)) srv c values s = reqCreateUser (Suc n) srv c values s4"
    by blast
  ultimately show ?thesis by blast
qed

theorem expired_token_resubmits_witness:
  "acquireToken (srv_expire 1) (closure_of form_open) form_open = Inr (''t0'', form_open) \<and>
   post_reply (srv_expire 1) (xlog form_open) (mkPayload (closure_of form_open) values1 form_open) ''t0''
     = Inl (HttpError 401 (Some \<lparr>e_success = False, e_fails = None\<rparr>)) \<and>
   (\<exists>r rest more.
      xlog (snd (reqCreateUser (Suc (Suc 0)) (srv_expire 1) (closure_of form_open) values1 form_open)) =
        xlog form_open @
          PostX (mkPayload (closure_of form_open) values1 form_open) ''t0''
            (Inl (HttpError 401 (Some \<lparr>e_success = False, e_fails = None\<rparr>))) #
          TokenX (Inr \<lparr>rt_success = True, rt_token = ''t1''\<rparr>) #
          PostX (mkPayload (closure_of form_open) values1 form_open) ''t1'' r # rest \<and>
      alerts (snd (reqCreateUser (Suc (Suc 0)) (srv_expire 1) (closure_of form_open) values1 form_open)) =
        alerts form_open @ ''Your token has expired and will be updated now.'' # more)"
proof -
  have a: "acquireToken (srv_expire 1) (closure_of form_open) form_open = Inr (''t0'', form_open)"
    by (simp add: acquireToken_def form_open_def init_def)
  have p: "post_reply (srv_expire 1) (xlog form_open) (mkPayload (closure_of form_open) values1 form_open) ''t0''
      = Inl (HttpError 401 (Some \<lparr>e_success = False, e_fails = None\<rparr>))"
    by (simp add: srv_expire_def unauthorized_def form_open_def init_def)
  have ns: "\<not> e_success \<lparr>e_success = False, e_fails = None\<rparr>"
    by simp
  have tk: "token_reply (srv_expire 1)
      (xlog form_open @ [PostX (mkPayload (closure_of form_open) values1 form_open) ''t0''
         (Inl (HttpError 401 (Some \<lparr>e_success = False, e_fails = None\<rparr>)))])
      = Inr \<lparr>rt_success = True, rt_token = ''t1''\<rparr>"
    by (simp add: srv_expire_def)
  from expired_token_resubmits[OF a p ns tk, of 0] have
    "\<exists>r rest more.
      xlog (snd (reqCreateUser (Suc (Suc 0)) (srv_expire 1) (closure_of form_open) values1 form_open)) =
        xlog form_open @
          PostX (mkPayload (closure_of form_open) values1 form_open) ''t0''
            (Inl (HttpError 401 (Some \<lparr>e_success = False, e_fails = None\<rparr>))) #
          TokenX (Inr \<lparr>rt_success = True, rt_token = ''t1''\<rparr>) #
          PostX (mkPayload (closure_of form_open) values1 form_open) ''t1'' r # rest \<and>
      alerts (snd (reqCreateUser (Suc (Suc 0)) (srv_expire 1) (closure_of form_open) values1 form_open)) =
        alerts form_open @ ''Your token has expired and will be updated now.'' # more"
    by simp
  with a p show ?thesis by blast
qed

text \<open>
  Claim C4 as stated fails where it says that the token is renewed with no
  notification: line 213 alerts the operator before the token is renewed.
\<close>

theorem expiry_is_announced_counterexample:
  "alerts (snd (reqCreateUser 2 (srv_expire 1) (closure_of form_open) values1 form_open)) =
     [''Your token has expired and will be updated now.'', ''Successfully created user'']"
  by (simp add: numeral_2_eq_2 acquireToken_def getToken_def tryBlock_def catchBlock_def setToken_def alert_def
      togglePopCreateUser_def Let_def mkPayload_def
      form_open_def init_def closure_of_def srv_expire_def unauthorized_def created_def is_post_def)

section \<open>Repeated expiry\<close>







section \<open>The list of users over a session\<close>

lemma setFieldErrors_listing:
  "pageReq (setFieldErrors fs s) = pageReq s \<and> nextReqId (setFieldErrors fs s) = nextReqId s \<and>
   mounted (setFieldErrors fs s) = mounted s \<and> nextPage (setFieldErrors fs s) = nextPage s \<and>
   currPage (setFieldErrors fs s) = currPage s"
  by (induction fs s rule: setFieldErrors.induct) (simp_all add: setFieldError_def)

lemma acquireToken_listing:
  "acquireToken srv c s = Inl s1 \<or> acquireToken srv c s = Inr (t, s1) \<Longrightarrow>
     pageReq s1 = pageReq s \<and> nextReqId s1 = nextReqId s \<and> mounted s1 = mounted s \<and> nextPage s1 = nextPage s \<and>
     currPage s1 = currPage s"
  by (auto simp: acquireToken_def getToken_def setToken_def alert_def togglePopCreateUser_def Let_def
      split: if_splits sum.splits)

lemma tryBlock_listing:
  "tryBlock srv c values t s1 = (q, s2) \<Longrightarrow>
     pageReq s2 = pageReq s1 \<and> nextReqId s2 = nextReqId s1 \<and> mounted s2 = mounted s1 \<and> nextPage s2 = nextPage s1 \<and>
     currPage s2 = currPage s1"
  by (auto simp: tryBlock_def alert_def togglePopCreateUser_def Let_def split: sum.splits)

lemma catchBlock_listing:
  "catchBlock e s2 = Retry s3 \<or> catchBlock e s2 = Handled s3 \<Longrightarrow>
     pageReq s3 = pageReq s2 \<and> nextReqId s3 = nextReqId s2 \<and> mounted s3 = mounted s2 \<and> nextPage s3 = nextPage s2 \<and>
     currPage s3 = currPage s2"
  by (auto simp: catchBlock_def setToken_def alert_def Let_def setFieldErrors_listing
      split: axios_error.splits if_splits option.splits)

lemma run_frame:
  "pageReq (snd (reqCreateUser n srv c values s)) = pageReq s \<and>
   nextReqId (snd (reqCreateUser n srv c values s)) = nextReqId s \<and>
   mounted (snd (reqCreateUser n srv c values s)) = mounted s \<and>
   nextPage (snd (reqCreateUser n srv c values s)) = nextPage s \<and>
   currPage (snd (reqCreateUser n srv c values s)) = currPage s \<and>
   (users (snd (reqCreateUser n srv c values s)) = users s \<or>
    (\<exists>u. users (snd (reqCreateUser n srv c values s)) = u # users s))"
proof (induction n arbitrary: s)
  case 0
  show ?case by simp
next
  case (Suc n)
  obtain r where r: "reqCreateUser (Suc n) srv c values s = r" by simp
  from r show ?case
  proof (cases rule: reqCreateUser_Suc_cases)
    case (token_failed s1)
    with r acquireToken_Inl[OF token_failed(1)] acquireToken_listing[of srv c s s1] show ?thesis by simp
  next
    case (completed t s1 s2)
    with r acquireToken_Inr[OF completed(1)] acquireToken_listing[of srv c s s1 t]
      tryBlock_None[OF completed(2)] tryBlock_listing[OF completed(2)]
    show ?thesis by (auto simp: setToken_def)
  next
    case (threw t s1 e s2)
    with r acquireToken_Inr[OF threw(1)] acquireToken_listing[of srv c s s1 t]
      tryBlock_Some[OF threw(2)] tryBlock_listing[OF threw(2)]
    show ?thesis by (simp add: setToken_def)
  next
    case (handled t s1 e s2 s3)
    with r acquireToken_Inr[OF handled(1)] acquireToken_listing[of srv c s s1 t]
      tryBlock_Some[OF handled(2)] tryBlock_listing[OF handled(2)]
      catchBlock_Handled[OF handled(3)] catchBlock_listing[of e s2 s3]
    show ?thesis by (simp add: setToken_def)
  next
    case (retry t s1 e s2 s3)
    let ?s4 = "setToken None s3"
    from acquireToken_Inr[OF retry(1)] acquireToken_listing[of srv c s s1 t] retry(1)
      tryBlock_Some[OF retry(2)] tryBlock_listing[OF retry(2)]
      catchBlock_Retry[OF retry(3)] catchBlock_listing[of e s2 s3] retry(3)
    have "pageReq ?s4 = pageReq s" "nextReqId ?s4 = nextReqId s" "mounted ?s4 = mounted s"
      "nextPage ?s4 = nextPage s" "currPage ?s4 = currPage s" "users ?s4 = users s"
      by (simp_all add: setToken_def alert_def)
    with Suc.IH[of ?s4] r retry(4) show ?thesis by simp
  qed
qed

lemma handle_users:
  assumes "handle srv e s = Some s'"
  shows "users s' = users s \<or> (\<exists>res::GetUserResponse. users s' = users s @ gu_users res) \<or> (\<exists>u. users s' = u # users s)"
proof (cases e)
  case (PageAnswer rid r)
  show ?thesis
  proof (cases r)
    case (Inl err)
    with assms PageAnswer have "users s' = users s"
      by (auto simp: handle_def pageSettled_def deliverPage_def deliverPositions_def requestCatch_def alert_def split: if_splits)
    then show ?thesis by simp
  next
    case (Inr res)
    with assms PageAnswer have "users s' = users s \<or> users s' = users s @ gu_users res"
      by (auto simp: handle_def pageSettled_def deliverPage_def deliverPositions_def pageThen_def split: if_splits)
    then show ?thesis by blast
  qed
next
  case (PositionsAnswer r)
  with assms have "users s' = users s"
    by (auto simp: handle_def positionsSettled_def deliverPage_def deliverPositions_def requestCatch_def alert_def
        split: sum.splits if_splits)
  then show ?thesis by simp
next
  case ClickShowMore
  with assms have "users s' = users s"
    by (auto simp: handle_def setCurrPage_def startPageFetch_def cancelPage_def pageSettled_def requestCatch_def
        split: option.splits if_splits)
  then show ?thesis by simp
next
  case ClickCreate
  with assms have "users s' = users s"
    by (auto simp: handle_def onClickUserCreate_def getToken_def setToken_def alert_def togglePopCreateUser_def Let_def
        split: sum.splits)
  then show ?thesis by simp
next
  case (Submit vals n)
  show ?thesis
  proof (cases "seen s")
    case True
    with assms Submit have "s' = snd (reqCreateUser n srv (closure_of s) vals (s\<lparr>fieldErrors := Map.empty\<rparr>))"
      by (auto simp: handle_def split: prod.splits option.splits)
    with run_frame[of n srv "closure_of s" vals "s\<lparr>fieldErrors := Map.empty\<rparr>"] show ?thesis by auto
  next
    case False
    with assms Submit show ?thesis by (simp add: handle_def)
  qed
next
  case ClickClose
  with assms have "users s' = users s"
    by (auto simp: handle_def togglePopCreateUser_def split: if_splits)
  then show ?thesis by simp
next
  case (SelectPosition opt)
  with assms have "users s' = users s"
    by (auto simp: handle_def split: if_splits)
  then show ?thesis by simp
next
  case (ChooseFile f)
  with assms have "users s' = users s"
    by (auto simp: handle_def split: if_splits)
  then show ?thesis by simp
next
  case Unmount
  with assms have "users s' = users s"
    by (auto simp: handle_def cancelPositions_def cancelPage_def pageSettled_def positionsSettled_def requestCatch_def
        split: option.splits if_splits)
  then show ?thesis by simp
qed

lemma step_cases:
  assumes "step srv e s = Some s'"
  shows "handle srv e s = Some s' \<or> (\<exists>s1. handle srv e s = Some s1 \<and> s' = rerender s1) \<or> s' = s"
proof (cases "mounted s")
  case True
  show ?thesis
  proof (cases "handle srv e s")
    case None
    with assms True show ?thesis by (cases e) (simp_all add: step_def)
  next
    case (Some s1)
    with assms True have "s' = s1 \<or> s' = rerender s1" by (cases e) (simp_all add: step_def)
    with Some show ?thesis by blast
  qed
next
  case False
  with assms have "handle srv e s = Some s' \<or> s' = s" by (cases e) (simp_all add: step_def)
  then show ?thesis by blast
qed

lemma step_users:
  assumes "step srv e s = Some s'"
  shows "users s' = users s \<or> (\<exists>res::GetUserResponse. users s' = users s @ gu_users res) \<or> (\<exists>u. users s' = u # users s)"
proof -
  from step_cases[OF assms] consider "handle srv e s = Some s'"
    | s1 where "handle srv e s = Some s1" "s' = rerender s1" | "s' = s"
    by blast
  then show ?thesis
  proof cases
    case 1
    then show ?thesis by (rule handle_users)
  next
    case 2
    with handle_users[of srv e s s1] show ?thesis by (simp add: rerender_def)
  next
    case 3
    then show ?thesis by simp
  qed
qed

lemma step_sublist:
  assumes "step srv e s = Some s'"
  shows "sublist (users s) (users s')"
proof -
  from step_users[OF assms] consider "users s' = users s" | res :: GetUserResponse where "users s' = users s @ gu_users res"
    | u where "users s' = u # users s" by blast
  then show ?thesis
  proof cases
    case 1
    then show ?thesis by simp
  next
    case 2
    then show ?thesis by simp
  next
    case 3
    then show ?thesis by (simp add: sublist_Cons_right)
  qed
qed

lemma run_sublist: "run srv es s = Some s' \<Longrightarrow> sublist (users s) (users s')"
proof (induction es arbitrary: s)
  case Nil
  then show ?case by simp
next
  case (Cons e es)
  then obtain s1 where s1: "step srv e s = Some s1" "run srv es s1 = Some s'"
    by (auto split: option.splits)
  from step_sublist[OF s1(1)] Cons.IH[OF s1(2)] show ?case
    by (rule sublist_order.order_trans)
qed

text \<open>
  Claim C9. In every session, whatever the events before, one more event leaves the
  list as it is, or appends the users of a fetched page at its end, or puts one created
  user in front; so the list the session started with is still there, in its order, as
  a contiguous part of the list after any number of events.
\<close>

theorem list_only_grows:
  assumes "run srv es s0 = Some s" and "step srv e s = Some s'"
  shows "(users s' = users s \<or> (\<exists>res::GetUserResponse. users s' = users s @ gu_users res) \<or> (\<exists>u. users s' = u # users s)) \<and>
         sublist (users s0) (users s')"
proof -
  from run_sublist[OF assms(1)] step_sublist[OF assms(2)] have "sublist (users s0) (users s')"
    by (rule sublist_order.order_trans)
  with step_users[OF assms(2)] show ?thesis by simp
qed

lemmas session_defs = step_def handle_def rerender_def onClickUserCreate_def setCurrPage_def startPageFetch_def
  cancelPage_def cancelPositions_def pageSettled_def positionsSettled_def pageThen_def requestCatch_def
  deliverPage_def deliverPositions_def

theorem list_only_grows_witness:
  "run (srv_expire 0) [PageAnswer 0 (Inr (page_of [user2] 1 None)), ClickCreate] init \<noteq> None \<and>
   step (srv_expire 0) (Submit values1 1)
     (the (run (srv_expire 0) [PageAnswer 0 (Inr (page_of [user2] 1 None)), ClickCreate] init)) \<noteq> None \<and>
   users (the (step (srv_expire 0) (Submit values1 1)
     (the (run (srv_expire 0) [PageAnswer 0 (Inr (page_of [user2] 1 None)), ClickCreate] init)))) = [user1, user2] \<and>
   sublist (users init)
     (users (the (step (srv_expire 0) (Submit values1 1)
       (the (run (srv_expire 0) [PageAnswer 0 (Inr (page_of [user2] 1 None)), ClickCreate] init)))))"
proof -
  let ?es = "[PageAnswer 0 (Inr (page_of [user2] 1 None)), ClickCreate]"
  let ?s = "the (run (srv_expire 0) ?es init)"
  let ?s' = "the (step (srv_expire 0) (Submit values1 1) ?s)"
  have r: "run (srv_expire 0) ?es init = Some ?s"
    by (simp add: session_defs init_def page_of_def srv_expire_def getToken_def setToken_def
        togglePopCreateUser_def closure_of_def Let_def)
  have st: "step (srv_expire 0) (Submit values1 1) ?s = Some ?s'"
    by (simp add: session_defs init_def page_of_def srv_expire_def getToken_def setToken_def
        togglePopCreateUser_def closure_of_def Let_def acquireToken_def tryBlock_def mkPayload_def alert_def
        falsy_def created_def)
  have us: "users ?s' = [user1, user2]"
    by (simp add: session_defs init_def page_of_def srv_expire_def getToken_def setToken_def
        togglePopCreateUser_def closure_of_def Let_def acquireToken_def tryBlock_def mkPayload_def alert_def
        falsy_def created_def)
  from list_only_grows[OF r st] have "sublist (users init) (users ?s')" by (rule conjunct2)
  with r st us show ?thesis by blast
qed

section \<open>The held token after a submission\<close>

lemma handle_token:
  assumes tokens: "\<And>h res. token_reply srv h = Inr res \<Longrightarrow> rt_token res \<noteq> []"
    and h: "handle srv e s = Some s'" and ne: "tokenRef s \<noteq> Some []"
  shows "tokenRef s' \<noteq> Some []"
proof (cases e)
  case (PageAnswer rid r)
  with h have "tokenRef s' = tokenRef s"
    by (auto simp: handle_def deliverPage_def pageSettled_def pageThen_def requestCatch_def alert_def
        split: sum.splits if_splits)
  with ne show ?thesis by simp
next
  case (PositionsAnswer r)
  with h have "tokenRef s' = tokenRef s"
    by (auto simp: handle_def deliverPositions_def positionsSettled_def requestCatch_def alert_def
        split: sum.splits if_splits)
  with ne show ?thesis by simp
next
  case ClickShowMore
  with h have "tokenRef s' = tokenRef s"
    by (auto simp: handle_def setCurrPage_def startPageFetch_def cancelPage_def pageSettled_def requestCatch_def
        split: option.splits if_splits)
  with ne show ?thesis by simp
next
  case ClickCreate
  show ?thesis
  proof (cases "token_reply srv (xlog s)")
    case (Inl err)
    with h ClickCreate have "tokenRef s' = tokenRef s"
      by (auto simp: handle_def onClickUserCreate_def getToken_def alert_def Let_def)
    with ne show ?thesis by simp
  next
    case (Inr res)
    with h ClickCreate have "tokenRef s' = Some (rt_token res)"
      by (auto simp: handle_def onClickUserCreate_def getToken_def setToken_def togglePopCreateUser_def Let_def)
    with tokens[OF Inr] show ?thesis by simp
  qed
next
  case (Submit vals n)
  show ?thesis
  proof (cases "seen s")
    case True
    let ?r = "reqCreateUser n srv (closure_of s) vals (s\<lparr>fieldErrors := Map.empty\<rparr>)"
    from h Submit True obtain out where "fst ?r = Some out" "s' = snd ?r"
      by (auto simp: handle_def split: prod.splits option.splits)
    with token_after_run[of n srv "closure_of s" vals "s\<lparr>fieldErrors := Map.empty\<rparr>" out] ne
    show ?thesis by simp
  next
    case False
    with h Submit ne show ?thesis by (simp add: handle_def)
  qed
next
  case ClickClose
  with h have "tokenRef s' = tokenRef s"
    by (auto simp: handle_def togglePopCreateUser_def split: if_splits)
  with ne show ?thesis by simp
next
  case (SelectPosition opt)
  with h have "tokenRef s' = tokenRef s"
    by (auto simp: handle_def split: if_splits)
  with ne show ?thesis by simp
next
  case (ChooseFile f)
  with h have "tokenRef s' = tokenRef s"
    by (auto simp: handle_def split: if_splits)
  with ne show ?thesis by simp
next
  case Unmount
  with h have "tokenRef s' = tokenRef s"
    by (auto simp: handle_def cancelPositions_def cancelPage_def pageSettled_def positionsSettled_def requestCatch_def
        split: option.splits if_splits)
  with ne show ?thesis by simp
qed

lemma step_token:
  assumes tokens: "\<And>h res. token_reply srv h = Inr res \<Longrightarrow> rt_token res \<noteq> []"
    and st: "step srv e s = Some s'" and ne: "tokenRef s \<noteq> Some []"
  shows "tokenRef s' \<noteq> Some []"
proof -
  from step_cases[OF st] consider "handle srv e s = Some s'"
    | s1 where "handle srv e s = Some s1" "s' = rerender s1" | "s' = s"
    by blast
  then show ?thesis
  proof cases
    case 1
    from handle_token[OF tokens 1 ne] show ?thesis .
  next
    case 2
    from handle_token[OF tokens 2(1) ne] 2(2) show ?thesis by (simp add: rerender_def)
  next
    case 3
    with ne show ?thesis by simp
  qed
qed

lemma run_token:
  assumes tokens: "\<And>h res. token_reply srv h = Inr res \<Longrightarrow> rt_token res \<noteq> []"
  shows "run srv es s = Some s' \<Longrightarrow> tokenRef s \<noteq> Some [] \<Longrightarrow> tokenRef s' \<noteq> Some []"
proof (induction es arbitrary: s)
  case Nil
  then show ?case by simp
next
  case (Cons e es)
  then obtain s1 where s1: "step srv e s = Some s1" "run srv es s1 = Some s'"
    by (auto split: option.splits)
  from step_token[OF tokens s1(1) Cons.prems(2)] have "tokenRef s1 \<noteq> Some []" .
  from Cons.IH[OF s1(2) this] show ?case .
qed

text \<open>
  Claim C2. In a session of the mounted component with a service whose tokens are not
  the empty string, after any events, every submission of the displayed form that
  terminates, whether its promise is fulfilled (success, field errors, a failed token
  request, another answer) or rejected, leaves \<open>tokenRef\<close> null, so that the next
  submission requests a token.
\<close>

theorem token_null_after_submission:
  assumes nonempty: "\<forall>h res. token_reply srv h = Inr res \<longrightarrow> rt_token res \<noteq> []"
    and reach: "run srv es init = Some s"
    and form: "mounted s" "seen s"
    and sub: "step srv (Submit values n) s = Some s'"
  shows "tokenRef s' = None"
proof -
  from nonempty have tokens: "\<And>h res. token_reply srv h = Inr res \<Longrightarrow> rt_token res \<noteq> []"
    by blast
  have "tokenRef init \<noteq> Some []" by (simp add: init_def)
  from run_token[OF tokens reach this] have ne: "tokenRef s \<noteq> Some []" .
  let ?r = "reqCreateUser n srv (closure_of s) values (s\<lparr>fieldErrors := Map.empty\<rparr>)"
  from sub form obtain out where r: "fst ?r = Some out" "s' = rerender (snd ?r)"
    by (auto simp: step_def handle_def split: prod.splits option.splits)
  from token_after_run[OF r(1)] ne have "tokenRef (snd ?r) = None" by simp
  with r(2) show ?thesis by (simp add: rerender_def)
qed

theorem token_null_after_submission_witness:
  "run (srv_expire 1) [PageAnswer 0 (Inr (page_of [user2] 1 None)), ClickCreate] init \<noteq> None \<and>
   mounted (the (run (srv_expire 1) [PageAnswer 0 (Inr (page_of [user2] 1 None)), ClickCreate] init)) \<and>
   seen (the (run (srv_expire 1) [PageAnswer 0 (Inr (page_of [user2] 1 None)), ClickCreate] init)) \<and>
   tokenRef (the (run (srv_expire 1) [PageAnswer 0 (Inr (page_of [user2] 1 None)), ClickCreate] init)) = Some ''t1'' \<and>
   step (srv_expire 1) (Submit values1 2)
     (the (run (srv_expire 1) [PageAnswer 0 (Inr (page_of [user2] 1 None)), ClickCreate] init)) \<noteq> None \<and>
   tokenRef (the (step (srv_expire 1) (Submit values1 2)
     (the (run (srv_expire 1) [PageAnswer 0 (Inr (page_of [user2] 1 None)), ClickCreate] init)))) = None"
proof -
  let ?es = "[PageAnswer 0 (Inr (page_of [user2] 1 None)), ClickCreate]"
  let ?s = "the (run (srv_expire 1) ?es init)"
  let ?s' = "the (step (srv_expire 1) (Submit values1 2) ?s)"
  have tokens: "\<forall>h res. token_reply (srv_expire 1) h = Inr res \<longrightarrow> rt_token res \<noteq> []"
    by (auto simp: srv_expire_def)
  have r: "run (srv_expire 1) ?es init = Some ?s"
    by (simp add: session_defs init_def page_of_def srv_expire_def getToken_def setToken_def
        togglePopCreateUser_def closure_of_def Let_def)
  have f: "mounted ?s" "seen ?s" "tokenRef ?s = Some ''t1''"
    by (simp_all add: session_defs init_def page_of_def srv_expire_def getToken_def setToken_def
        togglePopCreateUser_def closure_of_def Let_def)
  have st: "step (srv_expire 1) (Submit values1 2) ?s = Some ?s'"
    by (simp add: numeral_2_eq_2 session_defs init_def page_of_def srv_expire_def getToken_def setToken_def
        togglePopCreateUser_def closure_of_def Let_def acquireToken_def tryBlock_def catchBlock_def
        mkPayload_def alert_def falsy_def created_def unauthorized_def is_post_def)
  from token_null_after_submission[OF tokens r f(1,2) st] r f st show ?thesis by blast
qed

section \<open>A cancelled page request\<close>

lemma handle_listing:
  assumes "handle srv e s = Some s'"
  shows "(pageReq s' = pageReq s \<or> pageReq s' = None) \<and> nextReqId s' = nextReqId s \<or>
         pageReq s' = Some (nextReqId s) \<and> nextReqId s' = Suc (nextReqId s)"
proof (cases e)
  case (Submit vals n)
  show ?thesis
  proof (cases "seen s")
    case True
    with assms Submit have "s' = snd (reqCreateUser n srv (closure_of s) vals (s\<lparr>fieldErrors := Map.empty\<rparr>))"
      by (auto simp: handle_def split: prod.splits option.splits)
    with run_frame[of n srv "closure_of s" vals "s\<lparr>fieldErrors := Map.empty\<rparr>"] show ?thesis by simp
  next
    case False
    with assms Submit show ?thesis by (simp add: handle_def)
  qed
qed (use assms in \<open>auto simp: handle_def pageSettled_def positionsSettled_def deliverPage_def deliverPositions_def pageThen_def
      requestCatch_def alert_def setCurrPage_def startPageFetch_def cancelPage_def cancelPositions_def
      onClickUserCreate_def getToken_def setToken_def togglePopCreateUser_def Let_def
      split: sum.splits if_splits option.splits\<close>)

lemma step_keeps_cancelled:
  assumes "step srv e s = Some s'" and "rid < nextReqId s" and "pageReq s \<noteq> Some rid"
  shows "rid < nextReqId s' \<and> pageReq s' \<noteq> Some rid"
proof -
  from step_cases[OF assms(1)] consider "handle srv e s = Some s'"
    | s1 where "handle srv e s = Some s1" "s' = rerender s1" | "s' = s"
    by blast
  then show ?thesis
  proof cases
    case 1
    from handle_listing[OF 1] assms(2,3) show ?thesis by auto
  next
    case 2
    from handle_listing[OF 2(1)] assms(2,3) have "rid < nextReqId s1 \<and> pageReq s1 \<noteq> Some rid"
      by auto
    with 2(2) show ?thesis by (simp add: rerender_def)
  next
    case 3
    with assms(2,3) show ?thesis by simp
  qed
qed

lemma run_keeps_cancelled:
  "run srv es s = Some s' \<Longrightarrow> rid < nextReqId s \<Longrightarrow> pageReq s \<noteq> Some rid \<Longrightarrow>
     rid < nextReqId s' \<and> pageReq s' \<noteq> Some rid"
proof (induction es arbitrary: s)
  case Nil
  then show ?case by simp
next
  case (Cons e es)
  then obtain s1 where s1: "step srv e s = Some s1" "run srv es s1 = Some s'"
    by (auto split: option.splits)
  from step_keeps_cancelled[OF s1(1) Cons.prems(2,3)] Cons.IH[OF s1(2)] show ?case by simp
qed

lemma late_answer_dropped:
  assumes "pageReq s \<noteq> Some rid"
  shows "\<exists>s'. step srv (PageAnswer rid r) s = Some s' \<and> users s' = users s \<and> nextPage s' = nextPage s \<and>
           alerts s' = alerts s"
  using assms by (simp add: step_def handle_def deliverPage_def)

lemma handle_cursor:
  assumes h: "handle srv e s = Some s'"
    and inv: "pageReq s \<noteq> None \<longrightarrow> nextPage s = None \<or> nextPage s = Some (currPage s)"
  shows "pageReq s' \<noteq> None \<longrightarrow> nextPage s' = None \<or> nextPage s' = Some (currPage s')"
proof (cases e)
  case (Submit vals n)
  show ?thesis
  proof (cases "seen s")
    case True
    with h Submit have "s' = snd (reqCreateUser n srv (closure_of s) vals (s\<lparr>fieldErrors := Map.empty\<rparr>))"
      by (auto simp: handle_def split: prod.splits option.splits)
    with run_frame[of n srv "closure_of s" vals "s\<lparr>fieldErrors := Map.empty\<rparr>"] inv show ?thesis by simp
  next
    case False
    with h Submit inv show ?thesis by (simp add: handle_def)
  qed
qed (use h inv in \<open>auto simp: handle_def pageSettled_def positionsSettled_def deliverPage_def deliverPositions_def
      pageThen_def requestCatch_def alert_def setCurrPage_def startPageFetch_def cancelPage_def cancelPositions_def
      onClickUserCreate_def getToken_def setToken_def togglePopCreateUser_def Let_def
      split: sum.splits if_splits option.splits\<close>)

lemma run_cursor:
  "run srv es s = Some s' \<Longrightarrow>
     (pageReq s \<noteq> None \<longrightarrow> nextPage s = None \<or> nextPage s = Some (currPage s)) \<Longrightarrow>
     (pageReq s' \<noteq> None \<longrightarrow> nextPage s' = None \<or> nextPage s' = Some (currPage s'))"
proof (induction es arbitrary: s)
  case Nil
  then show ?case by simp
next
  case (Cons e es)
  then obtain s1 where s1: "step srv e s = Some s1" "run srv es s1 = Some s'"
    by (auto split: option.splits)
  from step_cases[OF s1(1)] consider "handle srv e s = Some s1"
    | s0 where "handle srv e s = Some s0" "s1 = rerender s0" | "s1 = s"
    by blast
  then have "pageReq s1 \<noteq> None \<longrightarrow> nextPage s1 = None \<or> nextPage s1 = Some (currPage s1)"
  proof cases
    case 1
    from handle_cursor[OF 1 Cons.prems(2)] show ?thesis .
  next
    case 2
    from handle_cursor[OF 2(1) Cons.prems(2)] 2(2) show ?thesis by (simp add: rerender_def)
  next
    case 3
    with Cons.prems(2) show ?thesis by simp
  qed
  from Cons.IH[OF s1(2) this] show ?case .
qed

text \<open>In a session of the mounted component a click on "Show more" never finds a request
  in flight for another cursor: the button offers a new cursor only once the answer to
  the last request has arrived. There a request in flight is cancelled by unmounting
  only.\<close>

lemma show_more_finds_no_request:
  assumes "run srv es init = Some s" and "pageReq s = Some rid"
  shows "\<not> (\<exists>u. nextPage s = Some u \<and> u \<noteq> [] \<and> u \<noteq> currPage s)"
proof -
  have "pageReq init \<noteq> None \<longrightarrow> nextPage init = None \<or> nextPage init = Some (currPage init)"
    by (simp add: init_def)
  from run_cursor[OF assms(1) this] assms(2) show ?thesis by auto
qed

text \<open>
  Claim C6. The handlers of lines 94-105 change nothing when the page request is
  rejected with a cancellation. When the page request in flight is cancelled, by
  unmounting or by a click on "Show more" that changes the cursor (the two causes the
  claim names, in any state), the cancellation changes neither the list nor the alerts,
  and after any further events the answer to the cancelled request, if it still
  arrives, changes neither the list, nor the next page, nor the alerts. What the
  cancellation does to the request, and that the late answer is discarded, is the part
  modelled from the spec in \<open>cancelPage\<close> and \<open>deliverPage\<close>.
\<close>

theorem cancelled_page_fetch_is_dropped:
  assumes "mounted s" and "pageReq s = Some rid" and "rid < nextReqId s"
    and "e = Unmount \<or> (e = ClickShowMore \<and> (\<exists>u. nextPage s = Some u \<and> u \<noteq> [] \<and> u \<noteq> currPage s))"
    and "step srv e s = Some s1" and "run srv es s1 = Some s2"
  shows "pageSettled RejectsCancel s = s \<and>
         users s1 = users s \<and> alerts s1 = alerts s \<and> pageReq s1 \<noteq> Some rid \<and>
         (\<exists>s3. step srv (PageAnswer rid r) s2 = Some s3 \<and> users s3 = users s2 \<and>
                nextPage s3 = nextPage s2 \<and> alerts s3 = alerts s2)"
proof -
  have s1: "users s1 = users s \<and> alerts s1 = alerts s \<and> pageReq s1 \<noteq> Some rid \<and> rid < nextReqId s1"
    using assms(4)
  proof
    assume "e = Unmount"
    with assms(1,2,3,5) show ?thesis
      by (auto simp: step_def handle_def rerender_def cancelPage_def cancelPositions_def pageSettled_def
          positionsSettled_def requestCatch_def split: if_splits)
  next
    assume "e = ClickShowMore \<and> (\<exists>u. nextPage s = Some u \<and> u \<noteq> [] \<and> u \<noteq> currPage s)"
    with assms(1,2,3,5) show ?thesis
      by (auto simp: step_def handle_def rerender_def setCurrPage_def startPageFetch_def cancelPage_def
          pageSettled_def requestCatch_def split: if_splits)
  qed
  with run_keeps_cancelled[OF assms(6), of rid] have "pageReq s2 \<noteq> Some rid" by simp
  have "pageSettled RejectsCancel s = s" by (simp add: pageSettled_def requestCatch_def)
  with late_answer_dropped[OF \<open>pageReq s2 \<noteq> Some rid\<close>, of srv r] s1 show ?thesis by simp
qed

text \<open>The second page is requested, the component is unmounted, and the page arrives
  afterwards: the list stays as it was. The same answer, had the request not been
  cancelled, would have been appended.\<close>

theorem cancelled_page_fetch_is_dropped_witness:
  "run srv_offline [PageAnswer 0 (Inr (page_of [user2] 1 (Some ''p2''))), ClickShowMore] init \<noteq> None \<and>
   mounted (the (run srv_offline [PageAnswer 0 (Inr (page_of [user2] 1 (Some ''p2''))), ClickShowMore] init)) \<and>
   pageReq (the (run srv_offline [PageAnswer 0 (Inr (page_of [user2] 1 (Some ''p2''))), ClickShowMore] init)) = Some 1 \<and>
   1 < nextReqId (the (run srv_offline [PageAnswer 0 (Inr (page_of [user2] 1 (Some ''p2''))), ClickShowMore] init)) \<and>
   users (the (step srv_offline (PageAnswer 1 (Inr (page_of [user1] 1 None)))
     (the (run srv_offline [PageAnswer 0 (Inr (page_of [user2] 1 (Some ''p2''))), ClickShowMore] init))))
       = [user2, user1] \<and>
   (\<exists>s3. step srv_offline (PageAnswer 1 (Inr (page_of [user1] 1 None)))
            (the (run srv_offline [ClickCreate]
              (the (step srv_offline Unmount
                (the (run srv_offline [PageAnswer 0 (Inr (page_of [user2] 1 (Some ''p2''))), ClickShowMore] init))))))
            = Some s3 \<and>
          users s3 = [user2] \<and> alerts s3 = [])"
proof -
  let ?s = "the (run srv_offline [PageAnswer 0 (Inr (page_of [user2] 1 (Some ''p2''))), ClickShowMore] init)"
  let ?s1 = "the (step srv_offline Unmount ?s)"
  let ?s2 = "the (run srv_offline [ClickCreate] ?s1)"
  have reach: "run srv_offline [PageAnswer 0 (Inr (page_of [user2] 1 (Some ''p2''))), ClickShowMore] init = Some ?s"
    by (simp add: session_defs init_def page_of_def baseURL_def)
  have i: "mounted ?s" "pageReq ?s = Some 1" "1 < nextReqId ?s"
    by (simp_all add: session_defs init_def page_of_def baseURL_def)
  have live: "users (the (step srv_offline (PageAnswer 1 (Inr (page_of [user1] 1 None))) ?s)) = [user2, user1]"
    by (simp add: session_defs init_def page_of_def baseURL_def)
  have st: "step srv_offline Unmount ?s = Some ?s1"
    by (simp add: session_defs init_def page_of_def baseURL_def)
  have r: "run srv_offline [ClickCreate] ?s1 = Some ?s2"
    by (simp add: session_defs init_def page_of_def baseURL_def)
  have after: "users ?s2 = [user2]" "alerts ?s2 = []"
    by (simp_all add: session_defs init_def page_of_def baseURL_def)
  from cancelled_page_fetch_is_dropped[OF i disjI1[OF refl] st r, of "Inr (page_of [user1] 1 None)"]
  obtain s3 where "step srv_offline (PageAnswer 1 (Inr (page_of [user1] 1 None))) ?s2 = Some s3"
    "users s3 = users ?s2" "alerts s3 = alerts ?s2"
    by blast
  with after have "\<exists>s3. step srv_offline (PageAnswer 1 (Inr (page_of [user1] 1 None))) ?s2 = Some s3 \<and>
      users s3 = [user2] \<and> alerts s3 = []"
    by simp
  with reach i live show ?thesis by blast
qed

section \<open>Pages fetched in a row\<close>

text \<open>
  Claim C7, as amended. After the successful page fetches \<open>pages\<close>, handled in
  the order of the fetches, the list is the previous list followed by the users of each
  page in that order; its length has grown by the sum of the \<open>count\<close> fields when
  every page's \<open>count\<close> is the number of users it carries. Users that occur in two
  pages occur twice.
\<close>

theorem pages_are_appended:
  "users (fold pageThen pages s) = users s @ concat (map gu_users pages) \<and>
   ((\<forall>res \<in> set pages. gu_count res = int (length (gu_users res))) \<longrightarrow>
      int (length (users (fold pageThen pages s))) = int (length (users s)) + sum_list (map gu_count pages))"
proof (induction pages arbitrary: s)
  case Nil
  show ?case by simp
next
  case (Cons p ps)
  from Cons.IH[of "pageThen p s"] show ?case
    by (auto simp: pageThen_def)
qed

theorem pages_are_appended_witness:
  "gu_count (page_of [user2] 1 (Some ''p2'')) = int (length (gu_users (page_of [user2] 1 (Some ''p2'')))) \<and>
   gu_count (page_of [user1] 1 None) = int (length (gu_users (page_of [user1] 1 None))) \<and>
   users (fold pageThen [page_of [user2] 1 (Some ''p2''), page_of [user1] 1 None] init) = [user2, user1] \<and>
   int (length (users (fold pageThen [page_of [user2] 1 (Some ''p2''), page_of [user1] 1 None] init))) =
     int (length (users init)) + sum_list (map gu_count [page_of [user2] 1 (Some ''p2''), page_of [user1] 1 None])"
  using pages_are_appended[of "[page_of [user2] 1 (Some ''p2''), page_of [user1] 1 None]" init]
  by (simp add: init_def page_of_def)

text \<open>
  Claim C7 as stated fails: the handler never reads \<open>count\<close> and removes no
  duplicates. Two pages that both carry \<open>user1\<close> and announce six users each give a
  list of two entries, not twelve, with \<open>user1\<close> twice.
\<close>

theorem repeated_user_counterexample:
  "int (length (users (fold pageThen [page_of [user1] 6 (Some ''p2''), page_of [user1] 6 None] init)))
     \<noteq> sum_list (map gu_count [page_of [user1] 6 (Some ''p2''), page_of [user1] 6 None]) \<and>
   \<not> distinct (map u_id (users (fold pageThen [page_of [user1] 6 (Some ''p2''), page_of [user1] 6 None] init)))"
  by (simp add: pageThen_def init_def page_of_def)

end
